theory Spec2Isabelle
  imports Complex_Main "HOL-Library.Char_ord" "HOL-Library.List_Lexorder"
begin

section \<open>Exceptions\<close>

text \<open>
  Every raise of the program is a value. The constructors are the exception classes the
  repository raises itself (\<open>ValueError\<close>, \<open>ImportError\<close>), the one the interpreter
  raises for a call with the wrong arguments (\<open>TypeError\<close>), and \<open>ExternalError\<close> for
  whatever an external collaborator (the Azure SDK, the operating system, the SSH client)
  raises. All of them are subclasses of Python's \<open>Exception\<close>.
\<close>

datatype exn =
    ValueError string
  | ImportError string
  | TypeError string
  | ExternalError string

section \<open>Python built-ins used by the upload engine\<close>

text \<open>
  \<open>range(start, stop, step)\<close>: a zero step raises \<open>ValueError\<close>, a positive step counts
  up while the value is below \<open>stop\<close>, a negative step counts down while it is above.
\<close>

function range_up :: "int \<Rightarrow> int \<Rightarrow> int \<Rightarrow> int list" where
  "range_up i stop step =
     (if 0 < step \<and> i < stop then i # range_up (i + step) stop step else [])"
  by pat_completeness auto
termination
  by (relation "measure (\<lambda>(i, stop, step). nat (stop - i))") auto

function range_down :: "int \<Rightarrow> int \<Rightarrow> int \<Rightarrow> int list" where
  "range_down i stop step =
     (if step < 0 \<and> stop < i then i # range_down (i + step) stop step else [])"
  by pat_completeness auto
termination
  by (relation "measure (\<lambda>(i, stop, step). nat (i - stop))") auto

declare range_up.simps [simp del]
declare range_down.simps [simp del]

definition py_range :: "int \<Rightarrow> int \<Rightarrow> int \<Rightarrow> exn + int list" where
  "py_range start stop step =
     (if step = 0 then Inl (ValueError ''range() arg 3 must not be zero'')
      else if 0 < step then Inr (range_up start stop step)
      else Inr (range_down start stop step))"

text \<open>\<open>str(i)\<close> for an integer: its decimal digits, after a minus sign when negative.\<close>

definition digit_char :: "int \<Rightarrow> char" where
  "digit_char d = ''0123456789'' ! nat d"

function digits :: "int \<Rightarrow> string" where
  "digits n = (if n < 10 then [digit_char n] else digits (n div 10) @ [digit_char (n mod 10)])"
  by pat_completeness auto
termination
  by (relation "measure nat") auto

declare digits.simps [simp del]

definition str :: "int \<Rightarrow> string" where
  "str i = (if i < 0 then CHR ''-'' # digits (- i) else digits i)"

text \<open>
  \<open>s.zfill(width)\<close>: a string at least \<open>width\<close> long is returned as it is (never
  truncated); a shorter one is padded with zeros on the left, after a leading sign.
\<close>

definition zfill :: "string \<Rightarrow> int \<Rightarrow> string" where
  "zfill s width =
     (if width \<le> int (length s) then s
      else (case s of
              [] \<Rightarrow> replicate (nat width) (CHR ''0'')
            | c # rest \<Rightarrow>
                if c = CHR ''+'' \<or> c = CHR ''-''
                then c # replicate (nat width - length s) (CHR ''0'') @ rest
                else replicate (nat width - length s) (CHR ''0'') @ s))"

text \<open>
  For reference, the decimal rendering of a number in exactly \<open>k\<close> digits (zero padded,
  the low \<open>k\<close> digits). It is what \<open>str(n).zfill(k)\<close> is compared with below.
\<close>

primrec fixed_width :: "nat \<Rightarrow> int \<Rightarrow> string" where
  "fixed_width 0 n = []"
| "fixed_width (Suc k) n = fixed_width k (n div 10) @ [digit_char (n mod 10)]"

section \<open>The chunked upload of the Azure blob storage interface\<close>

text \<open>
  One chunk of an upload, as the loop of \<open>AzureBlobStorageInterface.upload\<close> computes it:
  \<open>blob_chunk_offset\<close>, \<open>blob_chunk_length\<close> and \<open>blob_chunk_id\<close>.
\<close>

record chunk =
  chunk_offset :: int
  chunk_length :: int
  chunk_id :: string

text \<open>
  The blob client of the Azure SDK is an external collaborator: \<open>stage_block\<close> and
  \<open>commit_block_list\<close> either return (\<open>None\<close>) or raise (\<open>Some e\<close>).
\<close>

record blob_client =
  stage_block :: "string \<Rightarrow> exn option"
  commit_block_list :: "string list \<Rightarrow> exn option"

text \<open>
  What an upload does to the outside world, in order: a call of \<open>stage_block\<close> with the
  block id (and the offset and length that were read from the file), a progress update,
  an exception stored in the future of a worker, a call of \<open>commit_block_list\<close>
  and, for the local sink, a write of a chunk at an offset of the destination file.
\<close>

datatype event =
    StageBlock string int int
  | ProgressUpdate int
  | FutureException string exn
  | FileWrite int int
  | CommitBlockList "string list"

text \<open>
  \<open>upload_chunk\<close>: seek and read under the file lock, stage the block, then report the
  progress. The bytes themselves are not modelled; the file is taken to hold the
  \<open>length\<close> bytes asked for, so \<open>len(file_data)\<close> is the chunk's length. When
  \<open>stage_block\<close> raises, the progress update is not reached and the exception leaves the
  function.
\<close>

definition azure_upload_chunk :: "blob_client \<Rightarrow> bool \<Rightarrow> chunk \<Rightarrow> (exn + unit) \<times> event list" where
  "azure_upload_chunk bc progress c =
     (case stage_block bc (chunk_id c) of
        Some e \<Rightarrow> (Inl e, [StageBlock (chunk_id c) (chunk_offset c) (chunk_length c)])
      | None \<Rightarrow>
          (Inr (), StageBlock (chunk_id c) (chunk_offset c) (chunk_length c)
                   # (if progress then [ProgressUpdate (chunk_length c)] else [])))"

text \<open>
  \<open>executor.submit(self.upload_chunk, ...)\<close>: the worker runs \<open>upload_chunk\<close>; what it
  returns or raises is stored in the \<open>Future\<close> that \<open>submit\<close> returns. \<open>upload\<close> drops
  that future, so an exception of the worker is recorded there and read by nobody.
\<close>

definition submit :: "blob_client \<Rightarrow> bool \<Rightarrow> chunk \<Rightarrow> event list" where
  "submit bc progress c =
     (case azure_upload_chunk bc progress c of
        (Inl e, evs) \<Rightarrow> evs @ [FutureException (chunk_id c) e]
      | (Inr u, evs) \<Rightarrow> evs)"

text \<open>The chunks the loop \<open>for blob_chunk_offset in range(0, file_size, blob_chunk_size)\<close> creates.\<close>

definition blob_chunks :: "int \<Rightarrow> int \<Rightarrow> exn + chunk list" where
  "blob_chunks file_size blob_chunk_size =
     (case py_range 0 file_size blob_chunk_size of
        Inl e \<Rightarrow> Inl e
      | Inr offsets \<Rightarrow>
          Inr (map (\<lambda>blob_chunk_offset.
                 \<lparr> chunk_offset = blob_chunk_offset,
                   chunk_length = min blob_chunk_size (file_size - blob_chunk_offset),
                   chunk_id = zfill (str blob_chunk_offset) 16 \<rparr>) offsets))"

text \<open>
  \<open>AzureBlobStorageInterface.upload\<close>. \<open>blob_chunk_size\<close> and \<open>blob_chunk_workers\<close> are
  the settings \<open>BACKUP_UPLOAD_CHUNK_SIZE\<close> and \<open>BACKUP_UPLOAD_CONCURRENCY\<close>. The thread
  pool refuses a worker count below one. The main thread appends every chunk id to
  \<open>blob_chunk_ids\<close> in loop order and submits the chunk; the workers run concurrently, and
  \<open>sched\<close> is the order in which they reach \<open>stage_block\<close> (any rearrangement of the
  submitted chunks). Leaving the \<open>with\<close> block waits for all workers. Then
  \<open>commit_block_list(blob_chunk_ids)\<close> is called, whatever the workers did.
\<close>

definition azure_upload ::
  "blob_client \<Rightarrow> (chunk list \<Rightarrow> chunk list) \<Rightarrow> int \<Rightarrow> int \<Rightarrow> int \<Rightarrow> bool
     \<Rightarrow> (exn + unit) \<times> event list" where
  "azure_upload bc sched file_size blob_chunk_size blob_chunk_workers progress =
     (if blob_chunk_workers \<le> 0
      then (Inl (ValueError ''max_workers must be greater than 0''), [])
      else (case blob_chunks file_size blob_chunk_size of
              Inl e \<Rightarrow> (Inl e, [])
            | Inr chunks \<Rightarrow>
                (let blob_chunk_ids = map chunk_id chunks;
                     staged = concat (map (submit bc progress) (sched chunks))
                 in (case commit_block_list bc blob_chunk_ids of
                       Some e \<Rightarrow> (Inl e, staged @ [CommitBlockList blob_chunk_ids])
                     | None \<Rightarrow> (Inr (), staged @ [CommitBlockList blob_chunk_ids])))))"

text \<open>
  \<open>LocalStorageInterface.upload\<close> runs the same loop without identifiers and without a
  commit: every worker seeks the destination file to the chunk's offset and writes the
  chunk there. \<open>open(dst, "wb")\<close> and \<open>file_dst.write\<close> are the operating system's and
  may raise; an exception of a worker stays in its future here too (the event names the
  chunk by its offset).
\<close>

definition local_chunks :: "int \<Rightarrow> int \<Rightarrow> exn + (int \<times> int) list" where
  "local_chunks file_size chunk_size =
     (case py_range 0 file_size chunk_size of
        Inl e \<Rightarrow> Inl e
      | Inr offsets \<Rightarrow>
          Inr (map (\<lambda>chunk_offset. (chunk_offset, min chunk_size (file_size - chunk_offset)))
                 offsets))"

definition local_upload_chunk ::
  "(int \<Rightarrow> exn option) \<Rightarrow> bool \<Rightarrow> int \<times> int \<Rightarrow> event list" where
  "local_upload_chunk file_dst_write progress c =
     (case file_dst_write (fst c) of
        Some e \<Rightarrow> [FileWrite (fst c) (snd c), FutureException (str (fst c)) e]
      | None \<Rightarrow> FileWrite (fst c) (snd c) # (if progress then [ProgressUpdate (snd c)] else []))"

definition local_upload ::
  "exn option \<Rightarrow> (int \<Rightarrow> exn option) \<Rightarrow> ((int \<times> int) list \<Rightarrow> (int \<times> int) list)
     \<Rightarrow> int \<Rightarrow> int \<Rightarrow> int \<Rightarrow> bool \<Rightarrow> (exn + unit) \<times> event list" where
  "local_upload open_dst file_dst_write sched file_size chunk_size chunk_workers progress =
     (case open_dst of
        Some e \<Rightarrow> (Inl e, [])
      | None \<Rightarrow>
          if chunk_workers \<le> 0
          then (Inl (ValueError ''max_workers must be greater than 0''), [])
          else (case local_chunks file_size chunk_size of
                  Inl e \<Rightarrow> (Inl e, [])
                | Inr chunks \<Rightarrow>
                    (Inr (), concat (map (local_upload_chunk file_dst_write progress)
                                      (sched chunks)))))"

text \<open>The identifier lists the trace passes to \<open>commit_block_list\<close>, in order.\<close>

fun committed :: "event list \<Rightarrow> string list list" where
  "committed [] = []"
| "committed (CommitBlockList ids # evs) = ids # committed evs"
| "committed (ev # evs) = committed evs"

section \<open>Python string and path functions used by the listings\<close>

text \<open>
  Strings are lists of 8-bit characters and are compared as Python compares \<open>str\<close>:
  lexicographically by character code, a proper prefix first. \<open>lower\<close> maps the ASCII
  capitals to their small letters and leaves every other character as it is.
\<close>

definition lower_char :: "char \<Rightarrow> char" where
  "lower_char c =
     (case map_of (zip ''ABCDEFGHIJKLMNOPQRSTUVWXYZ'' ''abcdefghijklmnopqrstuvwxyz'') c of
        Some l \<Rightarrow> l
      | None \<Rightarrow> c)"

definition lower :: "string \<Rightarrow> string" where
  "lower s = map lower_char s"

text \<open>
  \<open>p.rfind(c)\<close> for a single character: the highest index at which \<open>c\<close> stands, or
  \<open>-1\<close>. \<open>find_last\<close> is the search itself.
\<close>

fun find_last :: "char \<Rightarrow> string \<Rightarrow> nat option" where
  "find_last c [] = None"
| "find_last c (x # xs) =
     (case find_last c xs of
        Some i \<Rightarrow> Some (Suc i)
      | None \<Rightarrow> if x = c then Some 0 else None)"

definition rfind :: "string \<Rightarrow> char \<Rightarrow> int" where
  "rfind p c = (case find_last c p of None \<Rightarrow> - 1 | Some i \<Rightarrow> int i)"

text \<open>
  \<open>os.path.splitext\<close> on a POSIX system (\<open>genericpath._splitext\<close> with separator \<open>/\<close>, no
  alternative separator, extension separator \<open>.\<close>). The extension starts at the last dot
  of the last path component, unless that component has only dots before it. The loop
  that skips leading dots is \<open>has_name_before\<close>: it returns at the first character of the
  component that is not a dot.
\<close>

function has_name_before :: "string \<Rightarrow> int \<Rightarrow> int \<Rightarrow> bool" where
  "has_name_before p filenameIndex dotIndex =
     (if filenameIndex < dotIndex
      then (if take 1 (drop (nat filenameIndex) p) \<noteq> ''.'' then True
            else has_name_before p (filenameIndex + 1) dotIndex)
      else False)"
  by pat_completeness auto
termination
  by (relation "measure (\<lambda>(p, filenameIndex, dotIndex). nat (dotIndex - filenameIndex))") auto

declare has_name_before.simps [simp del]

definition splitext :: "string \<Rightarrow> string \<times> string" where
  "splitext p =
     (let sepIndex = rfind p (CHR ''/'');
          dotIndex = rfind p (CHR ''.'')
      in if sepIndex < dotIndex \<and> has_name_before p (sepIndex + 1) dotIndex
         then (take (nat dotIndex) p, drop (nat dotIndex) p)
         else (p, []))"

text \<open>\<open>os.path.join(a, b)\<close> on a POSIX system, for two components.\<close>

definition join :: "string \<Rightarrow> string \<Rightarrow> string" where
  "join a b =
     (if take 1 b = ''/'' then b
      else if a = [] \<or> last a = CHR ''/'' then a @ b
      else a @ ''/'' @ b)"

text \<open>
  \<open>sorted(xs, key=key, reverse=True)\<close>. Python's sort is stable, and with \<open>reverse=True\<close>
  it still keeps elements with equal keys in their original order: the result is
  descending by key, ties in input order. \<open>sort_key\<close> is the library's stable ascending
  sort, so sorting the reversed list and reversing the result is that.
\<close>

definition sorted_reverse :: "('a \<Rightarrow> 'k::linorder) \<Rightarrow> 'a list \<Rightarrow> 'a list" where
  "sorted_reverse key xs = rev (sort_key key (rev xs))"

section \<open>Listing a path of a sink\<close>

text \<open>The sort key of both listings: \<open>lambda f: os.path.splitext(f)[0].lower()\<close>.\<close>

definition list_key :: "string \<Rightarrow> string" where
  "list_key f = lower (fst (splitext f))"

text \<open>
  \<open>LocalStorageInterface.list\<close>. \<open>listdir\<close> is what \<open>os.listdir(path)\<close> does: it raises, or it
  returns the names of the entries, in an order the operating system chooses.
\<close>

definition local_list :: "(exn + string list) \<Rightarrow> string \<Rightarrow> exn + string list" where
  "local_list listdir path =
     (case listdir of
        Inl e \<Rightarrow> Inl e
      | Inr names \<Rightarrow> Inr (sorted_reverse list_key (map (\<lambda>i. join path i) names)))"





section \<open>The default retention of a storage interface\<close>

text \<open>\<open>RetentionConfig\<close>: \<open>count\<close> is a \<open>PositiveInt\<close>, so a validated policy has \<open>0 < count\<close>.\<close>

record retention_config =
  count :: int

text \<open>
  The two operations of the sink that \<open>StorageInterface.retention\<close> calls: \<open>self.list(path)\<close>
  returns the listing or raises, \<open>self.delete(item)\<close> returns or raises.
\<close>

record storage_ops =
  st_list :: "string \<Rightarrow> exn + string list"
  st_delete :: "string \<Rightarrow> exn option"

text \<open>
  The loop \<open>for i, item in enumerate(self.list(path=path))\<close>: an item at an index
  \<open>i >= config.count\<close> is deleted. The result is how the loop ended and the items that
  \<open>delete\<close> was called with, in order; an exception of \<open>delete\<close> ends the loop.
\<close>

fun retention_loop :: "(string \<Rightarrow> exn option) \<Rightarrow> int \<Rightarrow> (nat \<times> string) list \<Rightarrow> (exn + unit) \<times> string list" where
  "retention_loop delete cnt [] = (Inr (), [])"
| "retention_loop delete cnt ((i, item) # rest) =
     (if cnt \<le> int i
      then (case delete item of
              Some e \<Rightarrow> (Inl e, [item])
            | None \<Rightarrow> (case retention_loop delete cnt rest of (r, deleted) \<Rightarrow> (r, item # deleted)))
      else retention_loop delete cnt rest)"

definition retention :: "storage_ops \<Rightarrow> string \<Rightarrow> retention_config \<Rightarrow> (exn + unit) \<times> string list" where
  "retention sto path config =
     (case st_list sto path of
        Inl e \<Rightarrow> (Inl e, [])
      | Inr items \<Rightarrow> retention_loop (st_delete sto) (count config) (List.enumerate 0 items))"

section \<open>Configuration models\<close>

text \<open>
  \<open>BaseInterfaceConfig\<close> carries the \<open>interface\<close> identifier; the model allows extra fields,
  kept here as a list of key and value. \<open>BackupInterfaceConfig\<close> adds \<open>enabled\<close>;
  \<open>StorageInterfaceConfig\<close> adds nothing. \<open>Config\<close> is the job: its \<open>name\<close> and \<open>enabled\<close>
  fields are \<open>config_name\<close> and \<open>config_enabled\<close> here, since \<open>enabled\<close> is also the field of a
  source configuration. The vaults of a job play no part in \<open>run_backup\<close>.
\<close>

record interface_config =
  interface :: string
  extra :: "(string \<times> string) list"

record backup_interface_config = interface_config +
  enabled :: bool

record config =
  config_name :: string
  config_enabled :: bool
  storage :: interface_config
  interfaces :: "backup_interface_config list"

section \<open>Resolving an interface identifier\<close>

text \<open>
  What a source instance does when the orchestrator calls it: \<open>validate()\<close> and \<open>backup()\<close>
  each return (\<open>None\<close>) or raise (\<open>Some e\<close>).
\<close>

record backup_behaviour =
  validate :: "exn option"
  backup :: "exn option"

text \<open>
  A class that an identifier can resolve to: a storage interface, constructed from its
  configuration, or a backup interface, constructed from its configuration and the storage
  instance. A constructor raises (schema mismatch, connection failure) or yields the
  instance. \<open>modules\<close> is the table of importable modules: a module path is mapped to the
  attributes of the module.
\<close>

datatype py_class =
    StorageClass "interface_config \<Rightarrow> exn option"
  | BackupClass "backup_interface_config \<Rightarrow> exn + backup_behaviour"

type_synonym modules = "string \<Rightarrow> (string \<Rightarrow> py_class option) option"

text \<open>
  \<open>importlib.import_module(name)\<close> without a package: a name that starts with a dot is a
  relative import and raises \<open>TypeError\<close>, the empty name raises \<open>ValueError\<close>, a module
  that is not found raises \<open>ModuleNotFoundError\<close>, a subclass of \<open>ImportError\<close>.
\<close>

definition import_module :: "modules \<Rightarrow> string \<Rightarrow> exn + (string \<Rightarrow> py_class option)" where
  "import_module mods name =
     (if take 1 name = ''.''
      then Inl (TypeError ''the package argument is required to perform a relative import'')
      else if name = [] then Inl (ValueError ''Empty module name'')
      else (case mods name of
              None \<Rightarrow> Inl (ImportError (''No module named '' @ name))
            | Some m \<Rightarrow> Inr m))"

text \<open>
  \<open>get_class\<close>. \<open>cls.rsplit(".", 1)\<close> splits at the last dot; without a dot it yields one
  part, and unpacking it into two names raises \<open>ValueError\<close>. An \<open>ImportError\<close> of the
  import is replaced by the function's own \<open>ImportError\<close>; any other exception of the
  import passes through. A module without the attribute raises \<open>ImportError\<close>.
\<close>

definition get_class :: "modules \<Rightarrow> string \<Rightarrow> exn + py_class" where
  "get_class mods cls =
     (case find_last (CHR ''.'') cls of
        None \<Rightarrow> Inl (ValueError ''not enough values to unpack (expected 2, got 1)'')
      | Some i \<Rightarrow>
          (let module_path = take i cls; class_name = drop (Suc i) cls
           in (case import_module mods module_path of
                 Inl (ImportError m) \<Rightarrow> Inl (ImportError (''unable to import module '' @ module_path))
               | Inl e \<Rightarrow> Inl e
               | Inr imported \<Rightarrow>
                   (case imported class_name of
                      None \<Rightarrow> Inl (ImportError (''class '' @ class_name @ '' not found in module ''
                                                 @ module_path))
                    | Some c \<Rightarrow> Inr c))))"

section \<open>The orchestrator\<close>

text \<open>
  What \<open>run_backups\<close> and \<open>run_backup\<close> do, in order: the log line for a disabled job, the log
  line for a disabled source, the call of the constructor of a source class, the calls of
  \<open>validate\<close> and \<open>backup\<close> of an instance, and the error logged for an instance that raised
  (with the exception and the \<open>interface\<close> of the instance's configuration).
\<close>

datatype run_event =
    LogBackupDisabled
  | LogInterfaceDisabled
  | Instantiate backup_interface_config
  | Validate backup_interface_config
  | Backup backup_interface_config
  | LogError exn string

text \<open>\<open>storage_cls(config=config.storage)\<close> and \<open>cls(config=config, storage=storage_instance)\<close>.\<close>

definition construct_storage :: "py_class \<Rightarrow> interface_config \<Rightarrow> exn option" where
  "construct_storage storage_cls c =
     (case storage_cls of
        StorageClass init \<Rightarrow> init c
      | BackupClass init \<Rightarrow>
          Some (TypeError ''__init__() missing 1 required positional argument: storage''))"

definition construct_backup :: "py_class \<Rightarrow> backup_interface_config \<Rightarrow> exn + backup_behaviour" where
  "construct_backup cls c =
     (case cls of
        BackupClass init \<Rightarrow> init c
      | StorageClass init \<Rightarrow>
          Inl (TypeError ''__init__() got an unexpected keyword argument storage''))"

text \<open>The first loop of \<open>run_backup\<close>: the enabled configurations, and a log line for each other.\<close>

fun select_enabled ::
  "backup_interface_config list \<Rightarrow> backup_interface_config list \<times> run_event list" where
  "select_enabled [] = ([], [])"
| "select_enabled (interface' # rest) =
     (case select_enabled rest of
        (configs, evs) \<Rightarrow>
          if enabled interface' then (interface' # configs, evs)
          else (configs, LogInterfaceDisabled # evs))"

text \<open>
  The second loop: every enabled configuration is resolved and instantiated, in order. The
  first exception leaves the loop and \<open>run_backup\<close>.
\<close>

fun instantiate_all ::
  "modules \<Rightarrow> backup_interface_config list
     \<Rightarrow> (exn + (backup_interface_config \<times> backup_behaviour) list) \<times> run_event list" where
  "instantiate_all mods [] = (Inr [], [])"
| "instantiate_all mods (c # rest) =
     (case get_class mods (interface c) of
        Inl e \<Rightarrow> (Inl e, [])
      | Inr cls \<Rightarrow>
          (case construct_backup cls c of
             Inl e \<Rightarrow> (Inl e, [Instantiate c])
           | Inr inst \<Rightarrow>
               (case instantiate_all mods rest of
                  (Inl e, evs) \<Rightarrow> (Inl e, Instantiate c # evs)
                | (Inr instances, evs) \<Rightarrow> (Inr ((c, inst) # instances), Instantiate c # evs))))"

text \<open>The body of the \<open>try\<close>: \<open>instance.validate()\<close>, then \<open>instance.backup()\<close>.\<close>

definition run_instance ::
  "backup_interface_config \<Rightarrow> backup_behaviour \<Rightarrow> exn option \<times> run_event list" where
  "run_instance c inst =
     (case validate inst of
        Some exc \<Rightarrow> (Some exc, [Validate c])
      | None \<Rightarrow> (backup inst, [Validate c, Backup c]))"

text \<open>
  The third loop. An exception of an instance is logged when \<open>BACKUP_GRACEFUL_ERRORS\<close> is
  on, and the loop goes on; otherwise it is raised again and ends \<open>run_backup\<close>.
\<close>

fun run_instances ::
  "bool \<Rightarrow> (backup_interface_config \<times> backup_behaviour) list
     \<Rightarrow> (exn + unit) \<times> run_event list" where
  "run_instances graceful [] = (Inr (), [])"
| "run_instances graceful ((c, inst) # rest) =
     (case run_instance c inst of
        (None, evs) \<Rightarrow>
          (case run_instances graceful rest of (r, evs') \<Rightarrow> (r, evs @ evs'))
      | (Some exc, evs) \<Rightarrow>
          if graceful
          then (case run_instances graceful rest of
                  (r, evs') \<Rightarrow> (r, evs @ LogError exc (interface c) # evs'))
          else (Inl exc, evs))"

definition run_backup :: "modules \<Rightarrow> bool \<Rightarrow> config \<Rightarrow> (exn + unit) \<times> run_event list" where
  "run_backup mods graceful cfg =
     (case get_class mods (interface (storage cfg)) of
        Inl e \<Rightarrow> (Inl e, [])
      | Inr storage_cls \<Rightarrow>
          (case construct_storage storage_cls (storage cfg) of
             Some e \<Rightarrow> (Inl e, [])
           | None \<Rightarrow>
               (case select_enabled (interfaces cfg) of
                  (configs, skipped) \<Rightarrow>
                    (case instantiate_all mods configs of
                       (Inl e, evs) \<Rightarrow> (Inl e, skipped @ evs)
                     | (Inr instances, evs) \<Rightarrow>
                         (case run_instances graceful instances of
                            (r, evs') \<Rightarrow> (r, skipped @ evs @ evs'))))))"

text \<open>
  \<open>run_backups\<close>: the configuration is loaded (which may raise); a job that is not enabled
  is logged and nothing else happens.
\<close>

definition run_backups :: "modules \<Rightarrow> bool \<Rightarrow> exn + config \<Rightarrow> (exn + unit) \<times> run_event list" where
  "run_backups mods graceful loaded =
     (case loaded of
        Inl e \<Rightarrow> (Inl e, [])
      | Inr cfg \<Rightarrow>
          if \<not> config_enabled cfg then (Inr (), [LogBackupDisabled])
          else run_backup mods graceful cfg)"

text \<open>Readings of a trace: the configurations instantiated, validated and backed up, and the errors logged.\<close>

fun instantiated :: "run_event list \<Rightarrow> backup_interface_config list" where
  "instantiated [] = []"
| "instantiated (Instantiate c # evs) = c # instantiated evs"
| "instantiated (ev # evs) = instantiated evs"

fun validated :: "run_event list \<Rightarrow> backup_interface_config list" where
  "validated [] = []"
| "validated (Validate c # evs) = c # validated evs"
| "validated (ev # evs) = validated evs"

fun backed_up :: "run_event list \<Rightarrow> backup_interface_config list" where
  "backed_up [] = []"
| "backed_up (Backup c # evs) = c # backed_up evs"
| "backed_up (ev # evs) = backed_up evs"

fun logged_errors :: "run_event list \<Rightarrow> (exn \<times> string) list" where
  "logged_errors [] = []"
| "logged_errors (LogError e i # evs) = (e, i) # logged_errors evs"
| "logged_errors (ev # evs) = logged_errors evs"

text \<open>The exception an instance ends with, if any: that of \<open>validate\<close>, else that of \<open>backup\<close>.\<close>

definition failure :: "backup_behaviour \<Rightarrow> exn option" where
  "failure inst = (case validate inst of Some e \<Rightarrow> Some e | None \<Rightarrow> backup inst)"

text \<open>
  An enabled source configuration is constructible when its identifier resolves and the
  constructor of the class returns; the storage of a job likewise.
\<close>

definition constructible :: "modules \<Rightarrow> backup_interface_config \<Rightarrow> bool" where
  "constructible mods c =
     (case get_class mods (interface c) of
        Inl e \<Rightarrow> False
      | Inr cls \<Rightarrow> (case construct_backup cls c of Inl e \<Rightarrow> False | Inr inst \<Rightarrow> True))"

definition storage_constructible :: "modules \<Rightarrow> config \<Rightarrow> bool" where
  "storage_constructible mods cfg =
     (case get_class mods (interface (storage cfg)) of
        Inl e \<Rightarrow> False
      | Inr storage_cls \<Rightarrow> construct_storage storage_cls (storage cfg) = None)"

text \<open>
  A small installation for the examples: the module of the local storage interface and the
  module of the local directory backup interface, whose instances validate and back up
  without an exception, and three source configurations.
\<close>

definition demo_modules :: modules where
  "demo_modules name =
     (if name = ''backup.interfaces.storage.local''
      then Some (\<lambda>attr. if attr = ''LocalStorageInterface''
                         then Some (StorageClass (\<lambda>c. None)) else None)
      else if name = ''backup.interfaces.directories.local''
      then Some (\<lambda>attr. if attr = ''LocalDirectoryBackupInterface''
                         then Some (BackupClass (\<lambda>c. Inr \<lparr>validate = None, backup = None\<rparr>))
                         else None)
      else None)"

definition demo_storage :: interface_config where
  "demo_storage =
     \<lparr>interface = ''backup.interfaces.storage.local.LocalStorageInterface'', extra = []\<rparr>"

definition demo_source :: backup_interface_config where
  "demo_source =
     \<lparr>interface = ''backup.interfaces.directories.local.LocalDirectoryBackupInterface'',
      extra = [], enabled = True\<rparr>"

definition demo_unknown :: backup_interface_config where
  "demo_unknown =
     \<lparr>interface = ''backup.interfaces.directories.ftp.FTPDirectoryBackupInterface'',
      extra = [], enabled = True\<rparr>"

definition demo_unknown_disabled :: backup_interface_config where
  "demo_unknown_disabled = demo_unknown\<lparr>enabled := False\<rparr>"

section \<open>Backup names\<close>

text \<open>
  A reading of the clock, as \<open>datetime.datetime.now()\<close> returns it (the microseconds play no
  part). \<open>valid_datetime\<close> is the range of the fields of a \<open>datetime\<close> from the year 1000 on
  (a \<open>datetime\<close> ends with the year 9999; before the year 1000 some C libraries print the
  year in fewer than four digits).
\<close>

record datetime =
  year :: int
  month :: int
  day :: int
  hour :: int
  minute :: int
  second :: int

definition valid_datetime :: "datetime \<Rightarrow> bool" where
  "valid_datetime t =
     (1000 \<le> year t \<and> year t \<le> 9999 \<and> 1 \<le> month t \<and> month t \<le> 12
      \<and> 1 \<le> day t \<and> day t \<le> 31 \<and> 0 \<le> hour t \<and> hour t \<le> 23
      \<and> 0 \<le> minute t \<and> minute t \<le> 59 \<and> 0 \<le> second t \<and> second t \<le> 59)"

text \<open>The order of two readings in time, second by second.\<close>

definition earlier :: "datetime \<Rightarrow> datetime \<Rightarrow> bool" where
  "earlier a b =
     (year a < year b \<or> year a = year b \<and>
       (month a < month b \<or> month a = month b \<and>
         (day a < day b \<or> day a = day b \<and>
           (hour a < hour b \<or> hour a = hour b \<and>
             (minute a < minute b \<or> minute a = minute b \<and> second a < second b)))))"

text \<open>
  \<open>strftime("%Y-%m-%dT%H-%M-%S")\<close>: the year in four digits, every other field in two,
  zero padded, as the format is documented.
\<close>

definition strftime :: "datetime \<Rightarrow> string" where
  "strftime t =
     zfill (str (year t)) 4 @ ''-'' @ zfill (str (month t)) 2 @ ''-'' @ zfill (str (day t)) 2
     @ ''T'' @ zfill (str (hour t)) 2 @ ''-'' @ zfill (str (minute t)) 2
     @ ''-'' @ zfill (str (second t)) 2"

text \<open>\<open>get_backup_name(base)\<close>, with the reading of the clock as a parameter.\<close>

definition get_backup_name :: "datetime \<Rightarrow> string \<Rightarrow> string" where
  "get_backup_name now base = base @ ''_'' @ strftime now"

section \<open>Backing up directories\<close>

text \<open>
  \<open>DirectoryConfig\<close>. Its field \<open>retention\<close> is \<open>retention_policy\<close> here, since \<open>retention\<close>
  is the operation of the storage interface.
\<close>

record directory_config =
  src :: string
  dest :: string
  name :: string
  exclude :: "string list"
  retention_policy :: "retention_config option"

text \<open>
  Everything a backup of a directory calls outside the interface, each call returning a
  value or raising: \<open>shutil.make_archive\<close> (the path of the archive), \<open>exec_command\<close> of the SSH
  client followed by waiting for the exit status (the status), \<open>open_sftp\<close>, opening the
  archive and reading its size (\<open>open\<close> with \<open>os.path.getsize\<close>, or \<open>sftp.file\<close> with \<open>stat\<close>),
  the clock, the operations of the storage interface, and \<open>os.remove\<close>.
\<close>

record world =
  make_archive :: "string \<Rightarrow> exn + string"
  exec_command :: "string \<Rightarrow> exn + int"
  open_sftp :: "exn option"
  open_file :: "string \<Rightarrow> exn + int"
  clock :: "string \<Rightarrow> datetime"
  storage_exists :: "string \<Rightarrow> exn + bool"
  storage_create :: "string \<Rightarrow> exn option"
  storage_upload :: "string \<Rightarrow> int \<Rightarrow> exn option"
  storage_retention :: "string \<Rightarrow> retention_config \<Rightarrow> exn option"
  os_remove :: "string \<Rightarrow> exn option"

text \<open>The calls a backup makes, in order.\<close>

datatype action =
    MakeArchive string
  | ExecCommand string
  | OpenSftp
  | CloseSftp
  | Exists string
  | Create string
  | OpenFile string
  | Upload string int
  | OsRemove string
  | Retention string

text \<open>
  Statements in sequence: \<open>call\<close> is one call with its outcome, \<open>then_do\<close> runs the rest
  unless the first part raised, and \<open>finally_do\<close> is \<open>try: ... finally: ...\<close> for a clean-up
  call that does not raise.
\<close>

definition call :: "action \<Rightarrow> exn + 'a \<Rightarrow> (exn + 'a) \<times> action list" where
  "call a outcome = (outcome, [a])"

definition call_unit :: "action \<Rightarrow> exn option \<Rightarrow> (exn + unit) \<times> action list" where
  "call_unit a outcome = ((case outcome of Some e \<Rightarrow> Inl e | None \<Rightarrow> Inr ()), [a])"

definition then_do ::
  "(exn + 'a) \<times> action list \<Rightarrow> ('a \<Rightarrow> (exn + 'b) \<times> action list) \<Rightarrow> (exn + 'b) \<times> action list" where
  "then_do m f =
     (case m of
        (Inl e, acts) \<Rightarrow> (Inl e, acts)
      | (Inr x, acts) \<Rightarrow> (case f x of (r, acts') \<Rightarrow> (r, acts @ acts')))"

definition finally_do :: "(exn + 'a) \<times> action list \<Rightarrow> action \<Rightarrow> (exn + 'a) \<times> action list" where
  "finally_do m a = (fst m, snd m @ [a])"

text \<open>
  \<open>".".join(file.rsplit(".")[1:])\<close>: \<open>rsplit\<close> without a limit splits at every dot, so this is
  what follows the first dot of the path (nothing when it has no dot).
\<close>

definition after_first_dot :: "string \<Rightarrow> string" where
  "after_first_dot file = drop 1 (dropWhile (\<lambda>c. c \<noteq> CHR ''.'') file)"

text \<open>The destination directory and the destination file of a backup, as \<open>backup\<close> computes them.\<close>

definition backup_dst :: "directory_config \<Rightarrow> string" where
  "backup_dst directory = join (dest directory) (name directory)"

definition backup_dst_file :: "world \<Rightarrow> directory_config \<Rightarrow> string \<Rightarrow> string" where
  "backup_dst_file w directory archive =
     join (backup_dst directory)
       (get_backup_name (clock w (name directory)) (name directory)
        @ ''.'' @ after_first_dot archive)"

text \<open>\<open>if not self.storage.exists(path=dst): self.storage.create(path=dst)\<close>.\<close>

definition ensure_dst :: "world \<Rightarrow> string \<Rightarrow> (exn + unit) \<times> action list" where
  "ensure_dst w dst =
     then_do (call (Exists dst) (storage_exists w dst))
       (\<lambda>found. if found then (Inr (), []) else call_unit (Create dst) (storage_create w dst))"

text \<open>\<open>if directory.retention: self.storage.retention(path=dst, config=directory.retention)\<close>.\<close>

definition apply_retention :: "world \<Rightarrow> directory_config \<Rightarrow> string \<Rightarrow> (exn + unit) \<times> action list" where
  "apply_retention w directory dst =
     (case retention_policy directory of
        None \<Rightarrow> (Inr (), [])
      | Some policy \<Rightarrow> call_unit (Retention dst) (storage_retention w dst policy))"

text \<open>
  The body of the loop of \<open>LocalDirectoryBackupInterface.backup\<close> for one directory: archive,
  ensure the destination, open the archive and upload it, remove the archive, apply the
  retention. The removal stands after the \<open>with\<close> block and is not in a \<open>finally\<close>.
\<close>

definition local_backup_directory :: "world \<Rightarrow> directory_config \<Rightarrow> (exn + unit) \<times> action list" where
  "local_backup_directory w directory =
     then_do (call (MakeArchive (src directory)) (make_archive w (src directory)))
       (\<lambda>archive.
          then_do (ensure_dst w (backup_dst directory))
            (\<lambda>u. then_do (call (OpenFile archive) (open_file w archive))
               (\<lambda>file_obj_size.
                  then_do (call_unit (Upload (backup_dst_file w directory archive) file_obj_size)
                             (storage_upload w (backup_dst_file w directory archive) file_obj_size))
                    (\<lambda>u. then_do (call_unit (OsRemove archive) (os_remove w archive))
                       (\<lambda>u. apply_retention w directory (backup_dst directory))))))"

text \<open>The loop over the configured directories; the first exception ends it.\<close>

fun local_backup :: "world \<Rightarrow> directory_config list \<Rightarrow> (exn + unit) \<times> action list" where
  "local_backup w [] = (Inr (), [])"
| "local_backup w (directory # rest) =
     then_do (local_backup_directory w directory) (\<lambda>u. local_backup w rest)"

text \<open>
  \<open>SSHDirectoryBackupInterface.archive\<close>: the archive is written to a fixed path on the
  remote machine by a \<open>tar\<close> command; its exit status is read and dropped.
\<close>

definition ssh_archive_path :: "directory_config \<Rightarrow> string" where
  "ssh_archive_path directory = ''/tmp/'' @ name directory @ ''.tar.gz''"

fun join_words :: "string list \<Rightarrow> string" where
  "join_words [] = []"
| "join_words [x] = x"
| "join_words (x # xs) = x @ '' '' @ join_words xs"

definition tar_command :: "directory_config \<Rightarrow> string" where
  "tar_command directory =
     ''tar -czf '' @ ssh_archive_path directory @ '' ''
     @ join_words (map (\<lambda>e. ''--exclude='' @ e) (exclude directory)) @ '' '' @ src directory"

definition rm_command :: "string \<Rightarrow> string" where
  "rm_command archive = ''rm '' @ archive"

text \<open>
  The body of the loop of \<open>SSHDirectoryBackupInterface.backup\<close> for one directory. The
  upload stands in a \<open>try\<close> whose \<open>finally\<close> closes the SFTP session; the \<open>rm\<close> command
  stands after it, and its exit status is read and dropped.
\<close>

definition ssh_backup_directory :: "world \<Rightarrow> directory_config \<Rightarrow> (exn + unit) \<times> action list" where
  "ssh_backup_directory w directory =
     then_do (call (ExecCommand (tar_command directory)) (exec_command w (tar_command directory)))
       (\<lambda>status.
          then_do (call_unit OpenSftp (open_sftp w))
            (\<lambda>u. then_do (ensure_dst w (backup_dst directory))
               (\<lambda>u. then_do
                  (finally_do
                     (then_do (call (OpenFile (ssh_archive_path directory))
                                 (open_file w (ssh_archive_path directory)))
                        (\<lambda>remote_file_size.
                           call_unit (Upload (backup_dst_file w directory (ssh_archive_path directory))
                                        remote_file_size)
                             (storage_upload w
                                (backup_dst_file w directory (ssh_archive_path directory))
                                remote_file_size)))
                     CloseSftp)
                  (\<lambda>u. then_do (call (ExecCommand (rm_command (ssh_archive_path directory)))
                                  (exec_command w (rm_command (ssh_archive_path directory))))
                     (\<lambda>status. apply_retention w directory (backup_dst directory))))))"

fun ssh_backup :: "world \<Rightarrow> directory_config list \<Rightarrow> (exn + unit) \<times> action list" where
  "ssh_backup w [] = (Inr (), [])"
| "ssh_backup w (directory # rest) =
     then_do (ssh_backup_directory w directory) (\<lambda>u. ssh_backup w rest)"





definition demo_clock :: datetime where
  "demo_clock = \<lparr>year = 2024, month = 10, day = 6, hour = 9, minute = 24, second = 10\<rparr>"

definition demo_clock_later :: datetime where
  "demo_clock_later = \<lparr>year = 2024, month = 10, day = 6, hour = 9, minute = 24, second = 11\<rparr>"




section \<open>Proofs: the upload engine\<close>

subsection \<open>The chunk plan\<close>

lemma range_up_closed:
  "0 < step \<Longrightarrow> range_up i stop step
     = map (\<lambda>k. i + int k * step) [0..<nat (- ((i - stop) div step))]"
proof (induction i stop step rule: range_up.induct)
  case (1 i stop step)
  show ?case
  proof (cases "i < stop")
    case True
    have neg: "(i - stop) div step < 0"
      using True 1(2) by (simp add: div_neg_pos_less0)
    have "(i - stop + step) div step = (i - stop) div step + 1"
      using 1(2) by simp
    then have eq: "(i + step - stop) div step = (i - stop) div step + 1"
      by (simp add: algebra_simps)
    obtain m where m: "nat (- ((i - stop) div step)) = Suc m"
      using neg by (cases "nat (- ((i - stop) div step))") auto
    have m': "nat (- ((i + step - stop) div step)) = m"
      using eq m by simp
    have "range_up i stop step = i # range_up (i + step) stop step"
      using True 1(2) by (subst range_up.simps) simp
    also have "range_up (i + step) stop step = map (\<lambda>k. (i + step) + int k * step) [0..<m]"
      using 1(1) True 1(2) m' by simp
    also have "i # map (\<lambda>k. (i + step) + int k * step) [0..<m]
                 = map (\<lambda>k. i + int k * step) [0..<Suc m]"
      by (simp only: map_upt_Suc) (simp add: algebra_simps)
    finally show ?thesis using m by simp
  next
    case False
    then have "0 \<le> (i - stop) div step"
      using 1(2) by (simp add: pos_imp_zdiv_nonneg_iff)
    then show ?thesis using False by (subst range_up.simps) simp
  qed
qed

lemma sum_lengths_range:
  "0 < C \<Longrightarrow> i \<le> S \<Longrightarrow> (\<Sum>off\<leftarrow>range_up i S C. min C (S - off)) = S - i"
proof (induction i S C rule: range_up.induct)
  case (1 i stop step)
  consider (more) "i + step \<le> stop" | (final) "i < stop" "stop < i + step" | (none) "i = stop"
    using 1(2,3) by linarith
  then show ?case
  proof cases
    case more
    then have lt: "i < stop" using 1(2) by simp
    have "range_up i stop step = i # range_up (i + step) stop step"
      using lt 1(2) by (subst range_up.simps) simp
    moreover have "(\<Sum>off\<leftarrow>range_up (i + step) stop step. min step (stop - off)) = stop - (i + step)"
      using 1(1) lt 1(2) more by simp
    ultimately show ?thesis using more by simp
  next
    case final
    have "range_up (i + step) stop step = []"
      using final by (subst range_up.simps) simp
    moreover have "range_up i stop step = i # range_up (i + step) stop step"
      using final 1(2) by (subst range_up.simps) simp
    ultimately show ?thesis using final by simp
  next
    case none
    then show ?thesis by (subst range_up.simps) simp
  qed
qed

lemma count_bounds:
  assumes "0 < (C::int)"
  shows "S \<le> (- ((- S) div C)) * C" and "(- ((- S) div C)) * C < S + C"
proof -
  define q where "q = (- S) div C"
  define r where "r = (- S) mod C"
  have "q * C = - S - r"
    unfolding q_def r_def by (rule minus_mod_eq_div_mult [symmetric])
  then have h: "(- q) * C = S + r" by simp
  have r: "0 \<le> r" "r < C" using assms by (simp_all add: r_def)
  show "S \<le> (- ((- S) div C)) * C" and "(- ((- S) div C)) * C < S + C"
    using h r unfolding q_def by simp_all
qed

lemma blob_chunks_closed:
  "0 < C \<Longrightarrow> blob_chunks S C =
     Inr (map (\<lambda>k. \<lparr> chunk_offset = int k * C, chunk_length = min C (S - int k * C),
                     chunk_id = zfill (str (int k * C)) 16 \<rparr>)
            [0..<nat (- ((- S) div C))])"
  by (simp add: blob_chunks_def py_range_def range_up_closed o_def)

lemma local_chunks_closed:
  "0 < C \<Longrightarrow> local_chunks S C =
     Inr (map (\<lambda>k. (int k * C, min C (S - int k * C))) [0..<nat (- ((- S) div C))])"
  by (simp add: local_chunks_def py_range_def range_up_closed o_def)

lemma blob_chunks_lengths_sum:
  assumes "0 < C" "0 \<le> S" "blob_chunks S C = Inr cs"
  shows "sum_list (map chunk_length cs) = S"
proof -
  have "cs = map (\<lambda>off. \<lparr> chunk_offset = off, chunk_length = min C (S - off),
                     chunk_id = zfill (str off) 16 \<rparr>) (range_up 0 S C)"
    using assms by (auto simp: blob_chunks_def py_range_def)
  then have "sum_list (map chunk_length cs) = (\<Sum>off\<leftarrow>range_up 0 S C. min C (S - off))"
    by (simp add: o_def)
  then show ?thesis using sum_lengths_range [of C 0 S] assms by simp
qed

text \<open>
  C2 (as the code has it). For every file size \<open>S \<ge> 0\<close> and chunk size \<open>C > 0\<close>, both
  uploads cut \<open>[0, S)\<close> into the same consecutive chunks: chunk \<open>k\<close> starts at \<open>k * C\<close> and is
  \<open>min(C, S - offset)\<close> long, the number of chunks is \<open>ceil(S / C)\<close> (which is zero for an
  empty file: no chunk is created then), the lengths add up to \<open>S\<close>, and for a non-empty
  file the last chunk is \<open>S - C * (count - 1)\<close> long.
\<close>

theorem chunk_partition:
  assumes "0 \<le> S" and "0 < C"
  shows "\<exists>cs. blob_chunks S C = Inr cs
           \<and> local_chunks S C = Inr (map (\<lambda>c. (chunk_offset c, chunk_length c)) cs)
           \<and> int (length cs) = \<lceil>real_of_int S / real_of_int C\<rceil>
           \<and> (\<forall>k<length cs. chunk_offset (cs ! k) = int k * C
                  \<and> chunk_length (cs ! k) = min C (S - int k * C))
           \<and> sum_list (map chunk_length cs) = S
           \<and> (0 < S \<longrightarrow> cs \<noteq> []
                  \<and> chunk_length (last cs) = S - C * (int (length cs) - 1))"
proof -
  define n where "n = nat (- ((- S) div C))"
  define cs where "cs = map (\<lambda>k. \<lparr> chunk_offset = int k * C, chunk_length = min C (S - int k * C),
                     chunk_id = zfill (str (int k * C)) 16 \<rparr>) [0..<n]"
  have bc: "blob_chunks S C = Inr cs"
    using assms(2) by (simp add: blob_chunks_closed cs_def n_def)
  have lc: "local_chunks S C = Inr (map (\<lambda>c. (chunk_offset c, chunk_length c)) cs)"
    using assms(2) by (simp add: local_chunks_closed cs_def n_def o_def)
  have nonneg: "0 \<le> - ((- S) div C)"
    using assms div_nonpos_pos_le0 [of "- S" C] by simp
  have len: "length cs = n" by (simp add: cs_def)
  have n_int: "int n = - ((- S) div C)" using nonneg by (simp add: n_def)
  have ceil: "int (length cs) = \<lceil>real_of_int S / real_of_int C\<rceil>"
    using n_int len by (simp add: ceiling_divide_eq_div)
  have nth: "\<forall>k<length cs. chunk_offset (cs ! k) = int k * C
                  \<and> chunk_length (cs ! k) = min C (S - int k * C)"
    by (simp add: cs_def)
  have sum: "sum_list (map chunk_length cs) = S"
    using blob_chunks_lengths_sum [OF assms(2) assms(1) bc] .
  have last: "cs \<noteq> [] \<and> chunk_length (last cs) = S - C * (int (length cs) - 1)" if "0 < S"
  proof -
    have up: "S \<le> int n * C" and lo: "int n * C < S + C"
      using count_bounds [OF assms(2), of S] n_int by simp_all
    have "0 < int n * C" using up that by linarith
    then have npos: "0 < n" using assms(2) by (simp add: zero_less_mult_iff)
    then have ne: "cs \<noteq> []" using len by auto
    have "last cs = cs ! (n - 1)" using ne len by (simp add: last_conv_nth)
    then have "chunk_length (last cs) = min C (S - int (n - 1) * C)"
      using nth len npos by simp
    moreover have "int (n - 1) = int n - 1" using npos by simp
    ultimately have "chunk_length (last cs) = min C (S - (int n - 1) * C)" by simp
    moreover have "S - (int n - 1) * C \<le> C" using up by (simp add: algebra_simps)
    ultimately show ?thesis using ne len by (simp add: algebra_simps min_def)
  qed
  show ?thesis
    using bc lc ceil nth sum last by blast
qed

text \<open>The partition of a 100-byte file into chunks of 25 bytes, an instance of C2.\<close>

theorem chunk_partition_witness:
  "\<exists>cs. blob_chunks 100 25 = Inr cs
           \<and> local_chunks 100 25 = Inr (map (\<lambda>c. (chunk_offset c, chunk_length c)) cs)
           \<and> int (length cs) = \<lceil>real_of_int 100 / real_of_int 25\<rceil>
           \<and> (\<forall>k<length cs. chunk_offset (cs ! k) = int k * 25
                  \<and> chunk_length (cs ! k) = min 25 (100 - int k * 25))
           \<and> sum_list (map chunk_length cs) = 100
           \<and> (0 < (100::int) \<longrightarrow> cs \<noteq> []
                  \<and> chunk_length (last cs) = 100 - 25 * (int (length cs) - 1))"
  using chunk_partition [of 100 25] by simp

text \<open>
  C2 as stated asks for at least one chunk even when the file is empty. For
  \<open>file_size = 0\<close> the loop \<open>range(0, 0, 4)\<close> has no iteration: neither upload creates a
  chunk, so the count is 0 and not 1.
\<close>

theorem chunk_count_minimum_counterexample:
  "blob_chunks 0 4 = Inr [] \<and> local_chunks 0 4 = Inr []
     \<and> int (length ([] :: chunk list)) \<noteq> max 1 \<lceil>real_of_int 0 / real_of_int 4\<rceil>"
  by (simp add: blob_chunks_def local_chunks_def py_range_def range_up.simps)

subsection \<open>Chunk identifiers\<close>

lemma digit_lookup: "n < 10 \<Longrightarrow> (of_char (''0123456789'' ! n) :: nat) = 48 + n"
  by (auto simp: numeral_eq_Suc less_Suc_eq)

lemma digit_char_code:
  "0 \<le> d \<Longrightarrow> d < 10 \<Longrightarrow> (of_char (digit_char d) :: nat) = 48 + nat d"
  using digit_lookup [of "nat d"] by (simp add: digit_char_def)

lemma digit_char_less: "0 \<le> a \<Longrightarrow> a < b \<Longrightarrow> b < 10 \<Longrightarrow> digit_char a < digit_char b"
  by (simp add: less_char_def digit_char_code)

lemma digit_char_not_sign:
  assumes "0 \<le> d" "d < 10"
  shows "digit_char d \<noteq> CHR ''+''" and "digit_char d \<noteq> CHR ''-''"
proof -
  have "(of_char (digit_char d) :: nat) \<ge> 48" using digit_char_code [OF assms] by simp
  then show "digit_char d \<noteq> CHR ''+''" and "digit_char d \<noteq> CHR ''-''" by auto
qed

lemma digits_first:
  "0 \<le> n \<Longrightarrow> \<exists>d rest. digits n = digit_char d # rest \<and> 0 \<le> d \<and> d < 10"
proof (induction n rule: digits.induct)
  case (1 n)
  show ?case
  proof (cases "n < 10")
    case True
    then show ?thesis using 1(2) by (subst digits.simps) auto
  next
    case False
    then obtain d rest where "digits (n div 10) = digit_char d # rest" "0 \<le> d" "d < 10"
      using 1 by force
    then show ?thesis using False by (subst digits.simps) auto
  qed
qed

lemma fixed_width_length: "length (fixed_width k n) = k"
  by (induction k arbitrary: n) simp_all

lemma fixed_width_zero: "fixed_width k 0 = replicate k (CHR ''0'')"
  by (induction k) (simp_all add: digit_char_def replicate_append_same)

lemma pad_digits:
  "0 \<le> n \<Longrightarrow> n < 10 ^ Suc k \<Longrightarrow>
     length (digits n) \<le> Suc k
     \<and> replicate (Suc k - length (digits n)) (CHR ''0'') @ digits n = fixed_width (Suc k) n"
proof (induction k arbitrary: n)
  case 0
  then have lt: "n < 10" by simp
  then have d: "digits n = [digit_char n]" by (subst digits.simps) simp
  have "n div 10 = 0" "n mod 10 = n" using lt 0 by simp_all
  then show ?case using d by simp
next
  case (Suc k)
  show ?case
  proof (cases "n < 10")
    case True
    have d: "digits n = [digit_char n]" using True by (subst digits.simps) simp
    have "n div 10 = 0" "n mod 10 = n" using True Suc.prems by simp_all
    then have "fixed_width (Suc (Suc k)) n = replicate (Suc k) (CHR ''0'') @ [digit_char n]"
      using fixed_width_zero [of "Suc k"] by simp
    then show ?thesis using d by simp
  next
    case False
    have d: "digits n = digits (n div 10) @ [digit_char (n mod 10)]"
      using False by (subst digits.simps) simp
    have "0 \<le> n div 10" "n div 10 < 10 ^ Suc k" using Suc.prems by simp_all
    from Suc.IH [OF this]
    have ih: "length (digits (n div 10)) \<le> Suc k"
      "replicate (Suc k - length (digits (n div 10))) (CHR ''0'') @ digits (n div 10)
         = fixed_width (Suc k) (n div 10)" by simp_all
    show ?thesis using d ih by simp
  qed
qed

lemma zfill_str_fixed:
  assumes "0 \<le> n" "n < 10 ^ 16"
  shows "zfill (str n) 16 = fixed_width 16 n"
proof -
  have s: "str n = digits n" using assms by (simp add: str_def)
  have "n < 10 ^ Suc 15" using assms by simp
  from pad_digits [OF assms(1) this]
  have len: "length (digits n) \<le> 16"
    and pad: "replicate (16 - length (digits n)) (CHR ''0'') @ digits n = fixed_width 16 n"
    by simp_all
  obtain d rest where d: "digits n = digit_char d # rest" "0 \<le> d" "d < 10"
    using digits_first [OF assms(1)] by blast
  show ?thesis
  proof (cases "16 \<le> length (digits n)")
    case True
    then have "length (digits n) = 16" using len by simp
    then show ?thesis using pad s by (simp add: zfill_def)
  next
    case False
    then show ?thesis
      using pad s d digit_char_not_sign [OF d(2,3)] by (simp add: zfill_def)
  qed
qed

lemma less_append_same_length:
  "xs < ys \<Longrightarrow> length xs = length ys \<Longrightarrow> xs @ u < ys @ (v :: 'a :: linorder list)"
  unfolding list_less_def by (rule lexord_sufI) simp_all

lemma less_snoc: "c < d \<Longrightarrow> xs @ [c] < xs @ [d :: 'a :: linorder]"
  unfolding list_less_def by (rule lexord_append_leftI) simp

lemma fixed_width_mono:
  "0 \<le> a \<Longrightarrow> a < b \<Longrightarrow> b < 10 ^ k \<Longrightarrow> fixed_width k a < fixed_width k b"
proof (induction k arbitrary: a b)
  case 0
  then show ?case by simp
next
  case (Suc k)
  have le: "a div 10 \<le> b div 10" using Suc.prems by (simp add: zdiv_mono1)
  show ?case
  proof (cases "a div 10 < b div 10")
    case True
    have "0 \<le> a div 10" "b div 10 < 10 ^ k" using Suc.prems by simp_all
    then have "fixed_width k (a div 10) < fixed_width k (b div 10)"
      using Suc.IH True by simp
    then show ?thesis by (simp add: less_append_same_length fixed_width_length)
  next
    case False
    then have eq: "a div 10 = b div 10" using le by simp
    have "a = 10 * (a div 10) + a mod 10" "b = 10 * (b div 10) + b mod 10" by simp_all
    then have "a mod 10 < b mod 10" using eq Suc.prems(2) by linarith
    moreover have "0 \<le> a mod 10" "b mod 10 < 10" by simp_all
    ultimately have "digit_char (a mod 10) < digit_char (b mod 10)"
      by (rule_tac digit_char_less) simp_all
    then show ?thesis using eq by (simp add: less_snoc)
  qed
qed

lemma committed_append: "committed (xs @ ys) = committed xs @ committed ys"
  by (induction xs rule: committed.induct) simp_all

lemma committed_submit: "committed (submit bc p c) = []"
  by (auto simp: submit_def azure_upload_chunk_def committed_append split: option.splits)

lemma committed_workers: "committed (concat (map (submit bc p) cs)) = []"
  by (induction cs) (simp_all add: committed_append committed_submit)

lemma committed_azure_upload:
  "0 < W \<Longrightarrow> blob_chunks S C = Inr cs \<Longrightarrow>
     committed (snd (azure_upload bc sched S C W p)) = [map chunk_id cs]"
  by (simp add: azure_upload_def Let_def committed_append committed_workers split: option.splits)

lemma chunk_ids_fixed:
  assumes "0 < C" "S \<le> 10 ^ 16" "blob_chunks S C = Inr cs" "k < length cs"
  shows "chunk_offset (cs ! k) = int k * C" and "0 \<le> int k * C" and "int k * C < 10 ^ 16"
    and "chunk_id (cs ! k) = fixed_width 16 (int k * C)"
proof -
  define n where "n = nat (- ((- S) div C))"
  have cs: "cs = map (\<lambda>k. \<lparr> chunk_offset = int k * C, chunk_length = min C (S - int k * C),
                     chunk_id = zfill (str (int k * C)) 16 \<rparr>) [0..<n]"
    using assms(1,3) by (simp add: blob_chunks_closed n_def)
  have kn: "k < n" using assms(4) cs by simp
  then have "0 < - ((- S) div C)" by (simp add: n_def)
  then have n_int: "int n = - ((- S) div C)" by (simp add: n_def)
  have "int n * C < S + C" using count_bounds(2) [OF assms(1), of S] n_int by simp
  moreover have "(int k + 1) * C \<le> int n * C"
    using kn assms(1) by (intro mult_right_mono) simp_all
  ultimately have lt: "int k * C < S" by (simp add: algebra_simps)
  show off: "chunk_offset (cs ! k) = int k * C" using kn cs by simp
  show nonneg: "0 \<le> int k * C" using assms(1) by simp
  show bound: "int k * C < 10 ^ 16" using lt assms(2) by linarith
  have "chunk_id (cs ! k) = zfill (str (int k * C)) 16" using kn cs by simp
  then show "chunk_id (cs ! k) = fixed_width 16 (int k * C)"
    using zfill_str_fixed [OF nonneg bound] by simp
qed

lemma chunk_offsets_ascending:
  assumes "0 < C" "blob_chunks S C = Inr cs"
  shows "sorted_wrt (<) (map chunk_offset cs)"
proof -
  have "cs = map (\<lambda>k. \<lparr> chunk_offset = int k * C, chunk_length = min C (S - int k * C),
                     chunk_id = zfill (str (int k * C)) 16 \<rparr>) [0..<nat (- ((- S) div C))]"
    using assms by (simp add: blob_chunks_closed)
  then have "map chunk_offset cs = map (\<lambda>k. int k * C) [0..<nat (- ((- S) div C))]"
    by (simp add: o_def)
  moreover have "sorted_wrt (<) (map (\<lambda>k. int k * C) [0..<n])" for n
    using assms(1) by (simp add: sorted_wrt_map sorted_wrt_iff_nth_less)
  ultimately show ?thesis by simp
qed

lemma chunk_ids_zfill:
  assumes "0 < C" "blob_chunks S C = Inr cs"
  shows "\<forall>c\<in>set cs. chunk_id c = zfill (str (chunk_offset c)) 16"
  using assms by (auto simp: blob_chunks_closed)

lemma chunk_ids_order:
  assumes "0 < C" "S \<le> 10 ^ 16" "blob_chunks S C = Inr cs" "i < length cs" "j < length cs"
  shows "(chunk_id (cs ! i) < chunk_id (cs ! j)) = (chunk_offset (cs ! i) < chunk_offset (cs ! j))"
proof -
  note fi = chunk_ids_fixed [OF assms(1,2,3,4)]
  note fj = chunk_ids_fixed [OF assms(1,2,3,5)]
  consider (lt) "int i * C < int j * C" | (eq) "int i * C = int j * C" | (gt) "int j * C < int i * C"
    by linarith
  then show ?thesis
  proof cases
    case lt
    then show ?thesis using fixed_width_mono [OF fi(2) lt fj(3)] fi(1,4) fj(1,4) by simp
  next
    case eq
    have "chunk_id (cs ! i) = chunk_id (cs ! j)" using eq fi(4) fj(4) by (simp only:)
    moreover have "chunk_offset (cs ! i) = chunk_offset (cs ! j)" using eq fi(1) fj(1) by (simp only:)
    ultimately show ?thesis by simp
  next
    case gt
    then have "chunk_id (cs ! j) < chunk_id (cs ! i)"
      using fixed_width_mono [OF fj(2) gt fi(3)] fi(1,4) fj(1,4) by simp
    then show ?thesis using gt fi(1) fj(1) by (simp add: not_less_iff_gr_or_eq)
  qed
qed

text \<open>
  C3 (as the code has it). For every upload with a positive chunk size and worker count,
  whatever the order \<open>sched\<close> in which the workers run, \<open>commit_block_list\<close> is called once,
  with the identifiers of all chunks in strictly ascending offset order; each identifier
  is \<open>str(offset).zfill(16)\<close>. When the file is at most \<open>10^16\<close> bytes long, every
  identifier is exactly 16 characters wide, the committed list is strictly ascending as
  a list of strings, and comparing two identifiers as strings is comparing their offsets
  as numbers.
\<close>

theorem committed_ids_ascending:
  assumes "0 < C" and "0 < W"
  shows "\<exists>cs. blob_chunks S C = Inr cs
           \<and> committed (snd (azure_upload bc sched S C W p)) = [map chunk_id cs]
           \<and> sorted_wrt (<) (map chunk_offset cs)
           \<and> (\<forall>c\<in>set cs. chunk_id c = zfill (str (chunk_offset c)) 16)
           \<and> (S \<le> 10 ^ 16 \<longrightarrow>
                 (\<forall>c\<in>set cs. length (chunk_id c) = 16)
                 \<and> sorted_wrt (<) (map chunk_id cs)
                 \<and> (\<forall>a\<in>set cs. \<forall>b\<in>set cs.
                       (chunk_id a < chunk_id b) = (chunk_offset a < chunk_offset b)))"
proof -
  obtain cs where cs: "blob_chunks S C = Inr cs"
    using assms(1) by (simp add: blob_chunks_closed)
  have com: "committed (snd (azure_upload bc sched S C W p)) = [map chunk_id cs]"
    using committed_azure_upload [OF assms(2) cs] .
  have asc: "sorted_wrt (<) (map chunk_offset cs)"
    using chunk_offsets_ascending [OF assms(1) cs] .
  have zf: "\<forall>c\<in>set cs. chunk_id c = zfill (str (chunk_offset c)) 16"
    using chunk_ids_zfill [OF assms(1) cs] .
  have small: "(\<forall>c\<in>set cs. length (chunk_id c) = 16)
                 \<and> sorted_wrt (<) (map chunk_id cs)
                 \<and> (\<forall>a\<in>set cs. \<forall>b\<in>set cs.
                       (chunk_id a < chunk_id b) = (chunk_offset a < chunk_offset b))"
    if le: "S \<le> 10 ^ 16"
  proof -
    have ord: "(chunk_id (cs ! i) < chunk_id (cs ! j)) = (chunk_offset (cs ! i) < chunk_offset (cs ! j))"
      if "i < length cs" "j < length cs" for i j
      using chunk_ids_order [OF assms(1) le cs that] .
    have len: "\<forall>c\<in>set cs. length (chunk_id c) = 16"
    proof
      fix c assume "c \<in> set cs"
      then obtain k where k: "k < length cs" "c = cs ! k" by (auto simp: in_set_conv_nth)
      then show "length (chunk_id c) = 16"
        using chunk_ids_fixed(4) [OF assms(1) le cs k(1)] by (simp add: fixed_width_length)
    qed
    have "sorted_wrt (<) (map chunk_id cs)"
      using asc ord by (simp add: sorted_wrt_iff_nth_less)
    moreover have "\<forall>a\<in>set cs. \<forall>b\<in>set cs.
                       (chunk_id a < chunk_id b) = (chunk_offset a < chunk_offset b)"
      using ord by (auto simp: in_set_conv_nth)
    ultimately show ?thesis using len by blast
  qed
  show ?thesis using cs com asc zf small by blast
qed

text \<open>
  An instance of C3: 100 bytes in chunks of 25, two workers that finish in reverse order.
\<close>

theorem committed_ids_ascending_witness:
  "(0::int) < 25 \<and> (0::int) < 2 \<and> (100::int) \<le> 10 ^ 16
   \<and> (\<exists>cs. blob_chunks 100 25 = Inr cs
           \<and> committed (snd (azure_upload
                  \<lparr>stage_block = (\<lambda>b. None), commit_block_list = (\<lambda>l. None)\<rparr>
                  rev 100 25 2 False)) = [map chunk_id cs]
           \<and> sorted_wrt (<) (map chunk_offset cs)
           \<and> (\<forall>c\<in>set cs. chunk_id c = zfill (str (chunk_offset c)) 16)
           \<and> (\<forall>c\<in>set cs. length (chunk_id c) = 16)
           \<and> sorted_wrt (<) (map chunk_id cs)
           \<and> (\<forall>a\<in>set cs. \<forall>b\<in>set cs.
                 (chunk_id a < chunk_id b) = (chunk_offset a < chunk_offset b)))"
proof -
  have h: "(0::int) < 25" "(0::int) < 2" by simp_all
  from committed_ids_ascending [OF h, of 100
          "\<lparr>stage_block = (\<lambda>b. None), commit_block_list = (\<lambda>l. None)\<rparr>" rev False]
  show ?thesis by simp
qed

text \<open>
  C3 as stated holds for every upload. \<open>zfill\<close> pads but never truncates, so an offset of
  \<open>10^16\<close> or more gets a 17-character identifier. For a file of \<open>2 * 10^16\<close> bytes in
  chunks of \<open>9 * 10^15\<close> bytes the committed list is in offset order, but the identifiers
  do not have one width and the third one is below the second one as a string.
\<close>

theorem wide_offsets_counterexample:
  "committed (snd (azure_upload \<lparr>stage_block = (\<lambda>b. None), commit_block_list = (\<lambda>l. None)\<rparr>
                      id 20000000000000000 9000000000000000 20 False))
     = [[''0000000000000000'', ''9000000000000000'', ''18000000000000000'']]
   \<and> (9000000000000000::int) < 18000000000000000
   \<and> ''18000000000000000'' < ''9000000000000000''
   \<and> length ''18000000000000000'' \<noteq> length ''9000000000000000''"
  by (simp add: azure_upload_def blob_chunks_def py_range_def range_up.simps zfill_def str_def
                digits.simps digit_char_def submit_def azure_upload_chunk_def eval_nat_numeral)

text \<open>
  C1 asks that no commit is attempted once a chunk has failed to stage. Here the second of
  four chunks fails in \<open>stage_block\<close>: the exception stays in the worker's future, \<open>upload\<close>
  returns normally, and \<open>commit_block_list\<close> is called with all four identifiers,
  the one of the block that was never staged among them.
\<close>

theorem commit_after_failed_stage:
  "azure_upload \<lparr>stage_block = (\<lambda>b. if b = ''0000000000000025''
                                       then Some (ExternalError ''stage_block failed'') else None),
                  commit_block_list = (\<lambda>l. None)\<rparr>
      id 100 25 2 False
   = (Inr (),
      [StageBlock ''0000000000000000'' 0 25,
       StageBlock ''0000000000000025'' 25 25,
       FutureException ''0000000000000025'' (ExternalError ''stage_block failed''),
       StageBlock ''0000000000000050'' 50 25,
       StageBlock ''0000000000000075'' 75 25,
       CommitBlockList [''0000000000000000'', ''0000000000000025'',
                        ''0000000000000050'', ''0000000000000075'']])"
  by (simp add: azure_upload_def blob_chunks_def py_range_def range_up.simps zfill_def str_def
                digits.simps digit_char_def submit_def azure_upload_chunk_def eval_nat_numeral)

section \<open>Proofs: listing a path\<close>



lemma sorted_reverse_length [simp]: "length (sorted_reverse key xs) = length xs"
  by (simp add: sorted_reverse_def)












section \<open>Proofs: retention\<close>

lemma retention_loop_enumerate:
  "0 \<le> K \<Longrightarrow> \<forall>x\<in>set (drop (nat K - n) items). delete x = None \<Longrightarrow>
     retention_loop delete K (List.enumerate n items) = (Inr (), drop (nat K - n) items)"
proof (induction items arbitrary: n)
  case Nil
  then show ?case by simp
next
  case (Cons x xs)
  show ?case
  proof (cases "K \<le> int n")
    case True
    then have z: "nat K - n = 0" "nat K - Suc n = 0" by simp_all
    then have "delete x = None" "\<forall>y\<in>set (drop (nat K - Suc n) xs). delete y = None"
      using Cons.prems(2) by simp_all
    then show ?thesis using Cons.IH [OF Cons.prems(1), of "Suc n"] True z by simp
  next
    case False
    then have s: "nat K - n = Suc (nat K - Suc n)" using Cons.prems(1) by linarith
    then have "\<forall>y\<in>set (drop (nat K - Suc n) xs). delete y = None"
      using Cons.prems(2) by simp
    then show ?thesis using Cons.IH [OF Cons.prems(1), of "Suc n"] False s by simp
  qed
qed

lemma retention_loop_prefix:
  "0 \<le> K \<Longrightarrow> \<exists>m. snd (retention_loop delete K (List.enumerate n items))
                    = take m (drop (nat K - n) items)"
proof (induction items arbitrary: n)
  case Nil
  then show ?case by simp
next
  case (Cons x xs)
  obtain m where m: "snd (retention_loop delete K (List.enumerate (Suc n) xs))
                       = take m (drop (nat K - Suc n) xs)"
    using Cons.IH [OF Cons.prems] by blast
  show ?case
  proof (cases "K \<le> int n")
    case True
    then have z: "nat K - n = 0" "nat K - Suc n = 0" by simp_all
    show ?thesis
    proof (cases "delete x")
      case None
      have "snd (retention_loop delete K (List.enumerate n (x # xs))) = take (Suc m) (drop (nat K - n) (x # xs))"
        using True None m z by (simp add: split_beta)
      then show ?thesis by blast
    next
      case (Some e)
      have "snd (retention_loop delete K (List.enumerate n (x # xs))) = take 1 (drop (nat K - n) (x # xs))"
        using True Some z by simp
      then show ?thesis by blast
    qed
  next
    case False
    then have s: "nat K - n = Suc (nat K - Suc n)" using Cons.prems by linarith
    have "snd (retention_loop delete K (List.enumerate n (x # xs))) = take m (drop (nat K - n) (x # xs))"
      using False m s by simp
    then show ?thesis by blast
  qed
qed

text \<open>
  C4. Let the listing of the path have \<open>N\<close> entries and the policy the count \<open>K\<close> (a
  positive integer). \<open>delete\<close> is only ever called with entries at list positions \<open>>= K\<close>,
  in list order. When those deletions succeed, retention returns normally and has deleted
  exactly the entries at the positions \<open>K, ..., N - 1\<close>: \<open>N - K\<close> entries when \<open>K < N\<close>, none
  when \<open>K >= N\<close>.
\<close>

theorem retention_deletes_beyond_count:
  assumes "st_list sto path = Inr items" and "0 < count config"
  shows "(\<exists>m. snd (retention sto path config) = take m (drop (nat (count config)) items))
       \<and> ((\<forall>x\<in>set (drop (nat (count config)) items). st_delete sto x = None) \<longrightarrow>
            retention sto path config = (Inr (), drop (nat (count config)) items)
          \<and> drop (nat (count config)) items
              = map (\<lambda>i. items ! i) [nat (count config)..<length items]
          \<and> (count config < int (length items) \<longrightarrow>
                int (length (snd (retention sto path config))) = int (length items) - count config)
          \<and> (int (length items) \<le> count config \<longrightarrow> snd (retention sto path config) = []))"
proof -
  let ?K = "count config"
  have K: "0 \<le> ?K" using assms(2) by simp
  have r: "retention sto path config = retention_loop (st_delete sto) ?K (List.enumerate 0 items)"
    using assms(1) by (simp add: retention_def)
  have pre: "\<exists>m. snd (retention sto path config) = take m (drop (nat ?K) items)"
    using retention_loop_prefix [OF K, of "st_delete sto" 0 items] r by simp
  have pos: "drop (nat ?K) items = map (\<lambda>i. items ! i) [nat ?K..<length items]"
    by (rule nth_equalityI) simp_all
  have ok: "retention sto path config = (Inr (), drop (nat ?K) items)"
    if "\<forall>x\<in>set (drop (nat ?K) items). st_delete sto x = None"
    using retention_loop_enumerate [OF K, of 0 items "st_delete sto"] that r by simp
  show ?thesis using pre pos ok K by auto
qed

text \<open>
  An instance of C4: five listed backups, newest first, and a policy with the count 3. The
  two oldest are deleted.
\<close>

theorem retention_deletes_beyond_count_witness:
  "retention \<lparr>st_list = (\<lambda>p. Inr [''backup5'', ''backup4'', ''backup3'', ''backup2'', ''backup1'']),
              st_delete = (\<lambda>p. None)\<rparr> ''/test/backup'' \<lparr>count = 3\<rparr>
     = (Inr (), [''backup2'', ''backup1''])"
  using retention_deletes_beyond_count
          [of "\<lparr>st_list = (\<lambda>p. Inr [''backup5'', ''backup4'', ''backup3'', ''backup2'', ''backup1'']),
                st_delete = (\<lambda>p. None)\<rparr>" "''/test/backup''"
              "[''backup5'', ''backup4'', ''backup3'', ''backup2'', ''backup1'']" "\<lparr>count = 3\<rparr>"]
  by (simp add: eval_nat_numeral)

section \<open>Proofs: the orchestrator\<close>

lemma validated_append: "validated (xs @ ys) = validated xs @ validated ys"
  by (induction xs rule: validated.induct) simp_all

lemma backed_up_append: "backed_up (xs @ ys) = backed_up xs @ backed_up ys"
  by (induction xs rule: backed_up.induct) simp_all

lemma instantiated_append: "instantiated (xs @ ys) = instantiated xs @ instantiated ys"
  by (induction xs rule: instantiated.induct) simp_all

lemma logged_errors_append: "logged_errors (xs @ ys) = logged_errors xs @ logged_errors ys"
  by (induction xs rule: logged_errors.induct) simp_all

lemmas trace_append = validated_append backed_up_append instantiated_append logged_errors_append

lemma run_instance_cases:
  "run_instance c inst =
     (failure inst, if validate inst = None then [Validate c, Backup c] else [Validate c])"
  by (simp add: run_instance_def failure_def split: option.splits)

lemma run_instances_graceful_result: "fst (run_instances True instances) = Inr ()"
  by (induction instances)
     (auto simp: run_instance_cases split_beta split: option.splits)

lemma run_instances_graceful_validated:
  "validated (snd (run_instances True instances)) = map fst instances"
  by (induction instances)
     (auto simp: run_instance_cases trace_append split_beta split: option.splits)

lemma run_instances_graceful_backed_up:
  "backed_up (snd (run_instances True instances))
     = map fst (filter (\<lambda>p. validate (snd p) = None) instances)"
  by (induction instances)
     (auto simp: run_instance_cases trace_append split_beta split: option.splits)

lemma run_instances_graceful_logged:
  "logged_errors (snd (run_instances True instances))
     = concat (map (\<lambda>p. case failure (snd p) of
                              Some exc \<Rightarrow> [(exc, interface (fst p))] | None \<Rightarrow> []) instances)"
  by (induction instances)
     (auto simp: run_instance_cases trace_append split_beta split: option.splits)

lemma run_instances_strict_stop:
  assumes "\<forall>p \<in> set pre. failure (snd p) = None" and "failure inst = Some exc"
  shows "run_instances False (pre @ (c, inst) # post) = run_instances False (pre @ [(c, inst)])"
    and "fst (run_instances False (pre @ (c, inst) # post)) = Inl exc"
    and "validated (snd (run_instances False (pre @ (c, inst) # post))) = map fst pre @ [c]"
  using assms
  by (induction pre)
     (auto simp: run_instance_cases trace_append split_beta split: option.splits)

text \<open>
  C5. With the graceful-errors switch on, the loop over the instances never raises: every
  instance is validated, in order, every instance whose validation returned is backed up,
  and for every instance that raised (in \<open>validate\<close> or in \<open>backup\<close>) the exception is logged
  with the instance's interface. With the switch off, the first exception ends the loop:
  it is the result of the run, and no instance after the failing one is executed (the run
  is the same as if they were not there).
\<close>

theorem graceful_errors_switch:
  "fst (run_instances True instances) = Inr ()
   \<and> validated (snd (run_instances True instances)) = map fst instances
   \<and> backed_up (snd (run_instances True instances))
       = map fst (filter (\<lambda>p. validate (snd p) = None) instances)
   \<and> logged_errors (snd (run_instances True instances))
       = concat (map (\<lambda>p. case failure (snd p) of
                                Some exc \<Rightarrow> [(exc, interface (fst p))] | None \<Rightarrow> []) instances)
   \<and> ((\<forall>p \<in> set pre. failure (snd p) = None) \<and> failure inst = Some exc \<longrightarrow>
         run_instances False (pre @ (c, inst) # post) = run_instances False (pre @ [(c, inst)])
         \<and> fst (run_instances False (pre @ (c, inst) # post)) = Inl exc
         \<and> validated (snd (run_instances False (pre @ (c, inst) # post))) = map fst pre @ [c])"
  using run_instances_graceful_result [of instances]
        run_instances_graceful_validated [of instances]
        run_instances_graceful_backed_up [of instances]
        run_instances_graceful_logged [of instances]
        run_instances_strict_stop [of pre inst exc c post]
  by simp

text \<open>
  An instance of C5: three sources, the second of which fails its validation.
\<close>

theorem graceful_errors_switch_witness:
  "run_instances True
     [(\<lparr>interface = ''m.A'', extra = [], enabled = True\<rparr>, \<lparr>validate = None, backup = None\<rparr>),
      (\<lparr>interface = ''m.B'', extra = [], enabled = True\<rparr>,
       \<lparr>validate = Some (ValueError ''missing''), backup = None\<rparr>),
      (\<lparr>interface = ''m.C'', extra = [], enabled = True\<rparr>, \<lparr>validate = None, backup = None\<rparr>)]
   = (Inr (),
      [Validate \<lparr>interface = ''m.A'', extra = [], enabled = True\<rparr>,
       Backup \<lparr>interface = ''m.A'', extra = [], enabled = True\<rparr>,
       Validate \<lparr>interface = ''m.B'', extra = [], enabled = True\<rparr>,
       LogError (ValueError ''missing'') ''m.B'',
       Validate \<lparr>interface = ''m.C'', extra = [], enabled = True\<rparr>,
       Backup \<lparr>interface = ''m.C'', extra = [], enabled = True\<rparr>])
   \<and> run_instances False
     ([(\<lparr>interface = ''m.A'', extra = [], enabled = True\<rparr>, \<lparr>validate = None, backup = None\<rparr>)]
      @ (\<lparr>interface = ''m.B'', extra = [], enabled = True\<rparr>,
         \<lparr>validate = Some (ValueError ''missing''), backup = None\<rparr>)
      # [(\<lparr>interface = ''m.C'', extra = [], enabled = True\<rparr>, \<lparr>validate = None, backup = None\<rparr>)])
   = (Inl (ValueError ''missing''),
      [Validate \<lparr>interface = ''m.A'', extra = [], enabled = True\<rparr>,
       Backup \<lparr>interface = ''m.A'', extra = [], enabled = True\<rparr>,
       Validate \<lparr>interface = ''m.B'', extra = [], enabled = True\<rparr>])"
proof -
  have f: "(\<forall>p \<in> set [(\<lparr>interface = ''m.A'', extra = [], enabled = True\<rparr>,
                          \<lparr>validate = None, backup = None\<rparr>)]. failure (snd p) = None)
           \<and> failure \<lparr>validate = Some (ValueError ''missing''), backup = None\<rparr>
               = Some (ValueError ''missing'')"
    by (simp add: failure_def)
  note t = graceful_errors_switch
      [of "[(\<lparr>interface = ''m.A'', extra = [], enabled = True\<rparr>, \<lparr>validate = None, backup = None\<rparr>),
            (\<lparr>interface = ''m.B'', extra = [], enabled = True\<rparr>,
             \<lparr>validate = Some (ValueError ''missing''), backup = None\<rparr>),
            (\<lparr>interface = ''m.C'', extra = [], enabled = True\<rparr>, \<lparr>validate = None, backup = None\<rparr>)]"
          "[(\<lparr>interface = ''m.A'', extra = [], enabled = True\<rparr>, \<lparr>validate = None, backup = None\<rparr>)]"
          "\<lparr>validate = Some (ValueError ''missing''), backup = None\<rparr>"
          "ValueError ''missing''"
          "\<lparr>interface = ''m.B'', extra = [], enabled = True\<rparr>"
          "[(\<lparr>interface = ''m.C'', extra = [], enabled = True\<rparr>, \<lparr>validate = None, backup = None\<rparr>)]"]
  note strict = t [THEN conjunct2, THEN conjunct2, THEN conjunct2, THEN conjunct2, THEN mp, OF f]
  have g: "run_instances True
     [(\<lparr>interface = ''m.A'', extra = [], enabled = True\<rparr>, \<lparr>validate = None, backup = None\<rparr>),
      (\<lparr>interface = ''m.B'', extra = [], enabled = True\<rparr>,
       \<lparr>validate = Some (ValueError ''missing''), backup = None\<rparr>),
      (\<lparr>interface = ''m.C'', extra = [], enabled = True\<rparr>, \<lparr>validate = None, backup = None\<rparr>)]
   = (Inr (),
      [Validate \<lparr>interface = ''m.A'', extra = [], enabled = True\<rparr>,
       Backup \<lparr>interface = ''m.A'', extra = [], enabled = True\<rparr>,
       Validate \<lparr>interface = ''m.B'', extra = [], enabled = True\<rparr>,
       LogError (ValueError ''missing'') ''m.B'',
       Validate \<lparr>interface = ''m.C'', extra = [], enabled = True\<rparr>,
       Backup \<lparr>interface = ''m.C'', extra = [], enabled = True\<rparr>])"
    by (simp add: run_instance_def)
  have s: "run_instances False
     ([(\<lparr>interface = ''m.A'', extra = [], enabled = True\<rparr>, \<lparr>validate = None, backup = None\<rparr>)]
      @ [(\<lparr>interface = ''m.B'', extra = [], enabled = True\<rparr>,
         \<lparr>validate = Some (ValueError ''missing''), backup = None\<rparr>)])
   = (Inl (ValueError ''missing''),
      [Validate \<lparr>interface = ''m.A'', extra = [], enabled = True\<rparr>,
       Backup \<lparr>interface = ''m.A'', extra = [], enabled = True\<rparr>,
       Validate \<lparr>interface = ''m.B'', extra = [], enabled = True\<rparr>])"
    by (simp add: run_instance_def)
  show ?thesis using g strict [THEN conjunct1] s by (simp only:)
qed

subsection \<open>Resolution failures\<close>

lemma get_class_error_kinds:
  "get_class mods cls = Inl e \<Longrightarrow>
     (\<exists>m. e = ImportError m) \<or> (\<exists>m. e = ValueError m) \<or> (\<exists>m. e = TypeError m)"
  by (auto simp: get_class_def import_module_def Let_def
           split: option.splits sum.splits exn.splits if_splits)

lemma select_enabled_filter: "fst (select_enabled cs) = filter enabled cs"
  by (induction cs) (auto split: prod.splits)

lemma select_enabled_events:
  "snd (select_enabled cs) = map (\<lambda>c. LogInterfaceDisabled) (filter (\<lambda>c. \<not> enabled c) cs)"
  by (induction cs) (auto split: prod.splits)

lemma skipped_readings:
  "validated (map (\<lambda>c. LogInterfaceDisabled) cs) = []"
  "backed_up (map (\<lambda>c. LogInterfaceDisabled) cs) = []"
  "instantiated (map (\<lambda>c. LogInterfaceDisabled) cs) = []"
  by (induction cs) simp_all

lemma instantiate_all_readings:
  "validated (snd (instantiate_all mods cs)) = []"
  "backed_up (snd (instantiate_all mods cs)) = []"
  by (induction cs) (auto split: prod.splits sum.splits)

lemma instantiate_all_unresolved:
  "c \<in> set cs \<Longrightarrow> get_class mods (interface c) = Inl e \<Longrightarrow>
     isl (fst (instantiate_all mods cs))"
  by (induction cs) (auto split: prod.splits sum.splits)

lemma instantiate_all_first_unresolved:
  "\<forall>p \<in> set pre. constructible mods p \<Longrightarrow> get_class mods (interface c) = Inl e \<Longrightarrow>
     fst (instantiate_all mods (pre @ c # post)) = Inl e"
  by (induction pre) (auto simp: constructible_def split: prod.splits sum.splits)

lemma run_backup_unfold:
  "storage_constructible mods cfg \<Longrightarrow>
     run_backup mods graceful cfg =
       (case instantiate_all mods (filter enabled (interfaces cfg)) of
          (Inl e, evs) \<Rightarrow> (Inl e, snd (select_enabled (interfaces cfg)) @ evs)
        | (Inr instances, evs) \<Rightarrow>
            (fst (run_instances graceful instances),
             snd (select_enabled (interfaces cfg)) @ evs @ snd (run_instances graceful instances)))"
  using select_enabled_filter [of "interfaces cfg"]
  by (auto simp: run_backup_def storage_constructible_def split: prod.splits sum.splits option.splits)

lemma run_backup_no_storage:
  "\<not> storage_constructible mods cfg \<Longrightarrow>
     isl (fst (run_backup mods graceful cfg)) \<and> snd (run_backup mods graceful cfg) = []"
  by (auto simp: run_backup_def storage_constructible_def split: prod.splits sum.splits option.splits)

text \<open>
  C7 (as the code has it). When the identifier of an enabled source configuration of a job
  cannot be resolved, \<open>run_backup\<close> raises and neither \<open>validate\<close> nor \<open>backup\<close> of any source
  is called, the sources whose identifiers resolve included. The error of the resolution
  is an \<open>ImportError\<close>, or the \<open>ValueError\<close> or \<open>TypeError\<close> that an identifier without a dot
  or with an empty or relative module path ends in. It is the exception that \<open>run_backup\<close>
  raises when the storage and the enabled sources before the unresolvable one can be
  constructed.
\<close>

theorem unresolvable_interface_aborts:
  assumes "c \<in> set (interfaces cfg)" and "enabled c" and "get_class mods (interface c) = Inl e"
  shows "isl (fst (run_backup mods graceful cfg))
       \<and> validated (snd (run_backup mods graceful cfg)) = []
       \<and> backed_up (snd (run_backup mods graceful cfg)) = []
       \<and> ((\<exists>m. e = ImportError m) \<or> (\<exists>m. e = ValueError m) \<or> (\<exists>m. e = TypeError m))
       \<and> (storage_constructible mods cfg \<and> interfaces cfg = pre @ c # post
            \<and> (\<forall>p \<in> set pre. enabled p \<longrightarrow> constructible mods p)
            \<longrightarrow> fst (run_backup mods graceful cfg) = Inl e)"
proof -
  have kinds: "(\<exists>m. e = ImportError m) \<or> (\<exists>m. e = ValueError m) \<or> (\<exists>m. e = TypeError m)"
    using get_class_error_kinds [OF assms(3)] .
  have mem: "c \<in> set (filter enabled (interfaces cfg))" using assms(1,2) by simp
  have fails: "isl (fst (instantiate_all mods (filter enabled (interfaces cfg))))"
    using instantiate_all_unresolved [OF mem assms(3)] .
  have abort: "isl (fst (run_backup mods graceful cfg))
       \<and> validated (snd (run_backup mods graceful cfg)) = []
       \<and> backed_up (snd (run_backup mods graceful cfg)) = []"
  proof (cases "storage_constructible mods cfg")
    case False
    then show ?thesis using run_backup_no_storage [of mods cfg graceful] by simp
  next
    case True
    obtain r evs where ia: "instantiate_all mods (filter enabled (interfaces cfg)) = (r, evs)"
      by (cases "instantiate_all mods (filter enabled (interfaces cfg))")
    then obtain e' where r: "r = Inl e'" using fails by (cases r) simp_all
    have "validated evs = []" "backed_up evs = []"
      using instantiate_all_readings [of mods "filter enabled (interfaces cfg)"] ia by simp_all
    then show ?thesis
      using run_backup_unfold [OF True, of graceful] ia r
      by (simp add: trace_append select_enabled_events skipped_readings)
  qed
  have first: "fst (run_backup mods graceful cfg) = Inl e"
    if h: "storage_constructible mods cfg" "interfaces cfg = pre @ c # post"
          "\<forall>p \<in> set pre. enabled p \<longrightarrow> constructible mods p"
  proof -
    have "filter enabled (interfaces cfg) = filter enabled pre @ c # filter enabled post"
      using h(2) assms(2) by simp
    moreover have "\<forall>p \<in> set (filter enabled pre). constructible mods p" using h(3) by simp
    ultimately have "fst (instantiate_all mods (filter enabled (interfaces cfg))) = Inl e"
      using instantiate_all_first_unresolved [OF _ assms(3)] by simp
    then show ?thesis
      using run_backup_unfold [OF h(1), of graceful] by (simp add: split_beta split: sum.splits)
  qed
  show ?thesis using abort kinds first by blast
qed

lemma demo_get_class:
  "get_class demo_modules (interface demo_storage) = Inr (StorageClass (\<lambda>c. None))"
  "get_class demo_modules (interface demo_source)
     = Inr (BackupClass (\<lambda>c. Inr \<lparr>validate = None, backup = None\<rparr>))"
  "get_class demo_modules (interface demo_unknown)
     = Inl (ImportError ''unable to import module backup.interfaces.directories.ftp'')"
  "get_class demo_modules (interface demo_unknown_disabled)
     = Inl (ImportError ''unable to import module backup.interfaces.directories.ftp'')"
  by (simp_all add: get_class_def import_module_def demo_modules_def demo_storage_def
                    demo_source_def demo_unknown_def demo_unknown_disabled_def Let_def)

lemma demo_flags:
  "enabled demo_source" "enabled demo_unknown" "\<not> enabled demo_unknown_disabled"
  by (simp_all add: demo_source_def demo_unknown_def demo_unknown_disabled_def)

lemma demo_storage_constructible:
  "storage cfg = demo_storage \<Longrightarrow> storage_constructible demo_modules cfg"
  by (simp add: storage_constructible_def demo_get_class construct_storage_def)

text \<open>
  An instance of C7: a job whose second source has an unknown interface. The first source
  is instantiated, the resolution of the second raises \<open>ImportError\<close>, and no source is
  validated or backed up.
\<close>

theorem unresolvable_interface_aborts_witness:
  "fst (run_backup demo_modules True
          \<lparr>config_name = ''job'', config_enabled = True, storage = demo_storage,
           interfaces = [demo_source] @ demo_unknown # []\<rparr>)
     = Inl (ImportError ''unable to import module backup.interfaces.directories.ftp'')
   \<and> validated (snd (run_backup demo_modules True
          \<lparr>config_name = ''job'', config_enabled = True, storage = demo_storage,
           interfaces = [demo_source] @ demo_unknown # []\<rparr>)) = []
   \<and> backed_up (snd (run_backup demo_modules True
          \<lparr>config_name = ''job'', config_enabled = True, storage = demo_storage,
           interfaces = [demo_source] @ demo_unknown # []\<rparr>)) = []"
proof -
  let ?cfg = "\<lparr>config_name = ''job'', config_enabled = True, storage = demo_storage,
              interfaces = [demo_source] @ demo_unknown # []\<rparr>"
  have a: "demo_unknown \<in> set (interfaces ?cfg)" by simp
  have c: "constructible demo_modules demo_source"
    by (simp add: constructible_def demo_get_class construct_backup_def)
  have h: "storage_constructible demo_modules ?cfg
           \<and> interfaces ?cfg = [demo_source] @ demo_unknown # []
           \<and> (\<forall>p \<in> set [demo_source]. enabled p \<longrightarrow> constructible demo_modules p)"
    using c by (simp add: demo_storage_constructible)
  note t = unresolvable_interface_aborts [OF a demo_flags(2) demo_get_class(3),
                                          of True "[demo_source]" "[]"]
  note t5 = t [THEN conjunct2, THEN conjunct2, THEN conjunct2, THEN conjunct2, THEN mp, OF h]
  show ?thesis
    using t5 t [THEN conjunct2, THEN conjunct1] t [THEN conjunct2, THEN conjunct2, THEN conjunct1]
    by (intro conjI)
qed

text \<open>
  C7 as stated covers every source configuration of the job. A source that is not
  enabled is never resolved: here the job holds a disabled source with an unknown
  interface and an enabled one. The run returns normally, and the enabled source is
  instantiated, validated and backed up.
\<close>

theorem disabled_unresolvable_counterexample:
  "get_class demo_modules (interface demo_unknown_disabled)
     = Inl (ImportError ''unable to import module backup.interfaces.directories.ftp'')
   \<and> run_backup demo_modules True
        \<lparr>config_name = ''job'', config_enabled = True, storage = demo_storage,
         interfaces = [demo_unknown_disabled, demo_source]\<rparr>
     = (Inr (), [LogInterfaceDisabled, Instantiate demo_source, Validate demo_source,
                 Backup demo_source])"
  by (simp add: run_backup_def demo_get_class demo_flags construct_storage_def
                construct_backup_def run_instance_def)

subsection \<open>Disabled jobs and sources\<close>

lemma instantiate_all_instances:
  "instantiate_all mods cs = (Inr instances, evs) \<Longrightarrow> map fst instances = cs"
  by (induction cs arbitrary: instances evs) (auto split: prod.splits sum.splits)

lemma instantiate_all_instantiated:
  "set (instantiated (snd (instantiate_all mods cs))) \<subseteq> set cs"
  by (induction cs) (auto split: prod.splits sum.splits)

lemma run_instances_readings:
  "set (validated (snd (run_instances graceful instances))) \<subseteq> fst ` set instances"
  "set (backed_up (snd (run_instances graceful instances))) \<subseteq> fst ` set instances"
  "instantiated (snd (run_instances graceful instances)) = []"
  by (induction instances)
     (auto simp: run_instance_cases trace_append split_beta split: option.splits if_splits)

lemma instantiate_all_no_skip: "LogInterfaceDisabled \<notin> set (snd (instantiate_all mods cs))"
  by (induction cs) (auto split: prod.splits sum.splits)

lemma run_instances_no_skip:
  "LogInterfaceDisabled \<notin> set (snd (run_instances graceful instances))"
  by (induction instances)
     (auto simp: run_instance_cases split_beta split: option.splits if_splits)

lemma filter_no_skip:
  "LogInterfaceDisabled \<notin> set evs \<Longrightarrow> filter (\<lambda>ev. ev \<noteq> LogInterfaceDisabled) evs = evs"
  by (induction evs) auto

lemma filter_skipped:
  "filter (\<lambda>ev. ev \<noteq> LogInterfaceDisabled) (map (\<lambda>c. LogInterfaceDisabled) cs) = []"
  by (induction cs) auto

lemma run_backup_events_enabled:
  "set (instantiated (snd (run_backup mods graceful cfg)))
     \<union> set (validated (snd (run_backup mods graceful cfg)))
     \<union> set (backed_up (snd (run_backup mods graceful cfg)))
   \<subseteq> set (filter enabled (interfaces cfg))"
proof (cases "storage_constructible mods cfg")
  case False
  then show ?thesis using run_backup_no_storage [of mods cfg graceful] by simp
next
  case True
  obtain r evs where ia: "instantiate_all mods (filter enabled (interfaces cfg)) = (r, evs)"
    by (cases "instantiate_all mods (filter enabled (interfaces cfg))")
  have i: "set (instantiated evs) \<subseteq> set (filter enabled (interfaces cfg))"
    using instantiate_all_instantiated [of mods "filter enabled (interfaces cfg)"] ia by simp
  have v: "validated evs = []" "backed_up evs = []"
    using instantiate_all_readings [of mods "filter enabled (interfaces cfg)"] ia by simp_all
  show ?thesis
  proof (cases r)
    case (Inl e)
    then show ?thesis
      using run_backup_unfold [OF True, of graceful] ia i v
      by (simp add: trace_append select_enabled_events skipped_readings)
  next
    case (Inr instances)
    have "fst ` set instances = set (filter enabled (interfaces cfg))"
      using instantiate_all_instances [of mods _ instances evs] ia Inr
      by (metis set_map)
    then show ?thesis
      using run_backup_unfold [OF True, of graceful] ia Inr i v
            run_instances_readings [of graceful instances]
      by (simp add: trace_append select_enabled_events skipped_readings)
  qed
qed

lemma storage_constructible_interfaces:
  "storage_constructible mods (cfg\<lparr>interfaces := cs\<rparr>) = storage_constructible mods cfg"
  by (simp add: storage_constructible_def split: sum.splits)

lemma run_backup_without_disabled:
  "run_backup mods graceful (cfg\<lparr>interfaces := filter enabled (interfaces cfg)\<rparr>)
     = (fst (run_backup mods graceful cfg),
        filter (\<lambda>ev. ev \<noteq> LogInterfaceDisabled) (snd (run_backup mods graceful cfg)))"
proof (cases "storage_constructible mods cfg")
  case False
  then have "\<not> storage_constructible mods (cfg\<lparr>interfaces := filter enabled (interfaces cfg)\<rparr>)"
    by (simp add: storage_constructible_interfaces)
  then show ?thesis
    using False by (auto simp: run_backup_def storage_constructible_def
                         split: prod.splits sum.splits option.splits)
next
  case True
  then have t': "storage_constructible mods (cfg\<lparr>interfaces := filter enabled (interfaces cfg)\<rparr>)"
    by (simp add: storage_constructible_interfaces)
  obtain r evs where ia: "instantiate_all mods (filter enabled (interfaces cfg)) = (r, evs)"
    by (cases "instantiate_all mods (filter enabled (interfaces cfg))")
  have n1: "filter (\<lambda>ev. ev \<noteq> LogInterfaceDisabled) evs = evs"
    using instantiate_all_no_skip [of mods "filter enabled (interfaces cfg)"] ia
    by (simp add: filter_no_skip)
  have n2: "filter (\<lambda>ev. ev \<noteq> LogInterfaceDisabled) (snd (run_instances graceful instances))
              = snd (run_instances graceful instances)" for instances
    using run_instances_no_skip [of graceful instances] by (simp add: filter_no_skip)
  show ?thesis
    using run_backup_unfold [OF True, of graceful] run_backup_unfold [OF t', of graceful] ia n1 n2
    by (cases r) (simp_all add: select_enabled_events filter_skipped)
qed

text \<open>
  C9. A job whose \<open>enabled\<close> flag is false is logged and nothing else happens: no class is
  resolved, no source is instantiated, and the run returns normally. Within a run, only
  enabled source configurations are ever instantiated, validated or backed up, and the
  disabled ones have no effect on the run but their log lines: the run of the job is the
  run of the job without its disabled sources.
\<close>

theorem disabled_skipped:
  "(\<not> config_enabled cfg \<longrightarrow> run_backups mods graceful (Inr cfg) = (Inr (), [LogBackupDisabled]))
   \<and> (\<forall>c \<in> set (instantiated (snd (run_backup mods graceful cfg)))
              \<union> set (validated (snd (run_backup mods graceful cfg)))
              \<union> set (backed_up (snd (run_backup mods graceful cfg))). enabled c)
   \<and> run_backup mods graceful (cfg\<lparr>interfaces := filter enabled (interfaces cfg)\<rparr>)
       = (fst (run_backup mods graceful cfg),
          filter (\<lambda>ev. ev \<noteq> LogInterfaceDisabled) (snd (run_backup mods graceful cfg)))"
proof (intro conjI)
  show "\<not> config_enabled cfg \<longrightarrow> run_backups mods graceful (Inr cfg) = (Inr (), [LogBackupDisabled])"
    by (simp add: run_backups_def)
  show "\<forall>c \<in> set (instantiated (snd (run_backup mods graceful cfg)))
              \<union> set (validated (snd (run_backup mods graceful cfg)))
              \<union> set (backed_up (snd (run_backup mods graceful cfg))). enabled c"
    using run_backup_events_enabled [of mods graceful cfg] by auto
  show "run_backup mods graceful (cfg\<lparr>interfaces := filter enabled (interfaces cfg)\<rparr>)
       = (fst (run_backup mods graceful cfg),
          filter (\<lambda>ev. ev \<noteq> LogInterfaceDisabled) (snd (run_backup mods graceful cfg)))"
    by (rule run_backup_without_disabled)
qed

text \<open>
  An instance of C9: a disabled job does nothing, and in an enabled job with one disabled
  and one enabled source only the enabled one is run.
\<close>

theorem disabled_skipped_witness:
  "run_backups demo_modules True
     (Inr \<lparr>config_name = ''job'', config_enabled = False, storage = demo_storage,
           interfaces = [demo_source]\<rparr>) = (Inr (), [LogBackupDisabled])
   \<and> demo_unknown_disabled
       \<notin> set (instantiated (snd (run_backup demo_modules True
                 \<lparr>config_name = ''job'', config_enabled = True, storage = demo_storage,
                  interfaces = [demo_unknown_disabled, demo_source]\<rparr>)))
         \<union> set (validated (snd (run_backup demo_modules True
                 \<lparr>config_name = ''job'', config_enabled = True, storage = demo_storage,
                  interfaces = [demo_unknown_disabled, demo_source]\<rparr>)))
         \<union> set (backed_up (snd (run_backup demo_modules True
                 \<lparr>config_name = ''job'', config_enabled = True, storage = demo_storage,
                  interfaces = [demo_unknown_disabled, demo_source]\<rparr>)))"
proof -
  have d: "\<not> config_enabled \<lparr>config_name = ''job'', config_enabled = False,
                               storage = demo_storage, interfaces = [demo_source]\<rparr>"
    by simp
  note t1 = disabled_skipped [of "\<lparr>config_name = ''job'', config_enabled = False,
                                storage = demo_storage, interfaces = [demo_source]\<rparr>"
                               demo_modules True, THEN conjunct1, THEN mp, OF d]
  note t2 = disabled_skipped [of "\<lparr>config_name = ''job'', config_enabled = True,
                                storage = demo_storage,
                                interfaces = [demo_unknown_disabled, demo_source]\<rparr>"
                               demo_modules True, THEN conjunct2, THEN conjunct1]
  have "demo_unknown_disabled
       \<notin> set (instantiated (snd (run_backup demo_modules True
                 \<lparr>config_name = ''job'', config_enabled = True, storage = demo_storage,
                  interfaces = [demo_unknown_disabled, demo_source]\<rparr>)))
         \<union> set (validated (snd (run_backup demo_modules True
                 \<lparr>config_name = ''job'', config_enabled = True, storage = demo_storage,
                  interfaces = [demo_unknown_disabled, demo_source]\<rparr>)))
         \<union> set (backed_up (snd (run_backup demo_modules True
                 \<lparr>config_name = ''job'', config_enabled = True, storage = demo_storage,
                  interfaces = [demo_unknown_disabled, demo_source]\<rparr>)))"
    using t2 [THEN bspec, of demo_unknown_disabled] demo_flags(3) by (rule_tac notI) simp
  with t1 show ?thesis by (rule conjI)
qed

section \<open>Proofs: the temporary archive\<close>











section \<open>Proofs: backup names and the listing order\<close>

lemma zfill_str_fixed_width:
  assumes "0 \<le> n" "n < 10 ^ Suc k"
  shows "zfill (str n) (int (Suc k)) = fixed_width (Suc k) n"
proof -
  have s: "str n = digits n" using assms by (simp add: str_def)
  from pad_digits [OF assms]
  have len: "length (digits n) \<le> Suc k"
    and pad: "replicate (Suc k - length (digits n)) (CHR ''0'') @ digits n = fixed_width (Suc k) n"
    by simp_all
  obtain d rest where d: "digits n = digit_char d # rest" "0 \<le> d" "d < 10"
    using digits_first [OF assms(1)] by blast
  show ?thesis
  proof (cases "Suc k \<le> length (digits n)")
    case True
    then have "length (digits n) = Suc k" using len by simp
    then show ?thesis using pad s by (simp add: zfill_def del: of_nat_Suc)
  next
    case False
    then have "\<not> int (Suc k) \<le> int (length (digits n))" by simp
    then show ?thesis
      using pad s d digit_char_not_sign [OF d(2,3)] by (simp add: zfill_def del: of_nat_Suc)
  qed
qed

lemma zfill4: "0 \<le> n \<Longrightarrow> n \<le> 9999 \<Longrightarrow> zfill (str n) 4 = fixed_width 4 n"
  using zfill_str_fixed_width [of n 3] by (simp add: eval_nat_numeral)

lemma zfill2: "0 \<le> n \<Longrightarrow> n \<le> 99 \<Longrightarrow> zfill (str n) 2 = fixed_width 2 n"
  using zfill_str_fixed_width [of n 1] by (simp add: eval_nat_numeral)

lemma fixed_width_less_iff:
  assumes "0 \<le> a" "a < 10 ^ k" "0 \<le> b" "b < 10 ^ k"
  shows "(fixed_width k a < fixed_width k b) = (a < b)"
proof -
  consider "a < b" | "a = b" | "b < a" by linarith
  then show ?thesis
  proof cases
    case 1
    then show ?thesis using fixed_width_mono [OF assms(1) 1 assms(4)] by simp
  next
    case 2
    then show ?thesis by simp
  next
    case 3
    then have "fixed_width k b < fixed_width k a"
      using fixed_width_mono [OF assms(3) 3 assms(2)] by simp
    then show ?thesis using 3 by (simp add: not_less_iff_gr_or_eq)
  qed
qed

lemma fixed_width_eq_iff:
  assumes "0 \<le> a" "a < 10 ^ k" "0 \<le> b" "b < 10 ^ k"
  shows "(fixed_width k a = fixed_width k b) = (a = b)"
proof -
  consider "a < b" | "a = b" | "b < a" by linarith
  then show ?thesis
  proof cases
    case 1
    then show ?thesis using fixed_width_mono [OF assms(1) 1 assms(4)] by auto
  next
    case 2
    then show ?thesis by simp
  next
    case 3
    then show ?thesis using fixed_width_mono [OF assms(3) 3 assms(2)] by auto
  qed
qed

lemma lower_digit: "n < 10 \<Longrightarrow> lower_char (''0123456789'' ! n) = ''0123456789'' ! n"
  by (auto simp: numeral_eq_Suc less_Suc_eq lower_char_def)

lemma lower_fixed_width: "lower (fixed_width k n) = fixed_width k n"
proof (induction k arbitrary: n)
  case 0
  then show ?case by (simp add: lower_def)
next
  case (Suc k)
  have "nat (n mod 10) < 10" by simp
  then have "lower_char (digit_char (n mod 10)) = digit_char (n mod 10)"
    unfolding digit_char_def by (rule lower_digit)
  then show ?case using Suc [of "n div 10"] by (simp add: lower_def)
qed

lemma lower_append: "lower (xs @ ys) = lower xs @ lower ys"
  by (simp add: lower_def)

lemma lower_length [simp]: "length (lower xs) = length xs"
  by (simp add: lower_def)

lemma append_less_iff:
  "length a = length b \<Longrightarrow>
     (a @ x < b @ (y :: 'a :: linorder list)) = (a < b \<or> a = b \<and> x < y)"
  by (induction a b rule: list_induct2) auto

lemma strftime_fixed:
  assumes "valid_datetime t"
  shows "strftime t = fixed_width 4 (year t) @ ''-'' @ fixed_width 2 (month t) @ ''-''
           @ fixed_width 2 (day t) @ ''T'' @ fixed_width 2 (hour t) @ ''-''
           @ fixed_width 2 (minute t) @ ''-'' @ fixed_width 2 (second t)"
  using assms unfolding strftime_def valid_datetime_def
  by (simp add: zfill4 zfill2)

lemma strftime_length: "valid_datetime t \<Longrightarrow> length (strftime t) = 19"
  by (simp add: strftime_fixed fixed_width_length)

lemma lower_strftime:
  assumes "valid_datetime t"
  shows "lower (strftime t) = fixed_width 4 (year t) @ ''-'' @ fixed_width 2 (month t) @ ''-''
           @ fixed_width 2 (day t) @ ''t'' @ fixed_width 2 (hour t) @ ''-''
           @ fixed_width 2 (minute t) @ ''-'' @ fixed_width 2 (second t)"
proof -
  have c: "lower ''-'' = ''-''" "lower ''T'' = ''t''"
    by (simp_all add: lower_def lower_char_def)
  show ?thesis
    unfolding strftime_fixed [OF assms] lower_append lower_fixed_width c ..
qed

lemma lower_strftime_less:
  assumes "valid_datetime a" "valid_datetime b" "earlier a b"
  shows "lower (strftime a) < lower (strftime b)"
proof -
  have ya: "0 \<le> year a" "year a < 10 ^ 4" and yb: "0 \<le> year b" "year b < 10 ^ 4"
    using assms(1,2) by (simp_all add: valid_datetime_def)
  have ma: "0 \<le> month a" "month a < 10 ^ 2" and mb: "0 \<le> month b" "month b < 10 ^ 2"
    using assms(1,2) by (simp_all add: valid_datetime_def)
  have da: "0 \<le> day a" "day a < 10 ^ 2" and db: "0 \<le> day b" "day b < 10 ^ 2"
    using assms(1,2) by (simp_all add: valid_datetime_def)
  have ha: "0 \<le> hour a" "hour a < 10 ^ 2" and hb: "0 \<le> hour b" "hour b < 10 ^ 2"
    using assms(1,2) by (simp_all add: valid_datetime_def)
  have mia: "0 \<le> minute a" "minute a < 10 ^ 2" and mib: "0 \<le> minute b" "minute b < 10 ^ 2"
    using assms(1,2) by (simp_all add: valid_datetime_def)
  have sa: "0 \<le> second a" "second a < 10 ^ 2" and sb: "0 \<le> second b" "second b < 10 ^ 2"
    using assms(1,2) by (simp_all add: valid_datetime_def)
  note cmp = fixed_width_less_iff [OF ya yb] fixed_width_eq_iff [OF ya yb]
             fixed_width_less_iff [OF ma mb] fixed_width_eq_iff [OF ma mb]
             fixed_width_less_iff [OF da db] fixed_width_eq_iff [OF da db]
             fixed_width_less_iff [OF ha hb] fixed_width_eq_iff [OF ha hb]
             fixed_width_less_iff [OF mia mib] fixed_width_eq_iff [OF mia mib]
             fixed_width_less_iff [OF sa sb] fixed_width_eq_iff [OF sa sb]
  have six: "(f4 @ ''-'' @ f2 @ ''-'' @ f3 @ ''t'' @ f5 @ ''-'' @ f6 @ ''-'' @ f7
              < g4 @ ''-'' @ g2 @ ''-'' @ g3 @ ''t'' @ g5 @ ''-'' @ g6 @ ''-'' @ g7)
           = (f4 < g4 \<or> f4 = g4 \<and> (f2 < g2 \<or> f2 = g2 \<and> (f3 < g3 \<or> f3 = g3 \<and>
               (f5 < g5 \<or> f5 = g5 \<and> (f6 < g6 \<or> f6 = g6 \<and> f7 < g7)))))"
    if "length f4 = length g4" "length f2 = length g2" "length f3 = length g3"
       "length f5 = length g5" "length f6 = length g6" "length f7 = length (g7 :: string)"
    for f2 f3 f4 f5 f6 f7 g2 g3 g4 g5 g6 g7 :: string
  proof -
    have e: "(f7 @ [] < g7 @ []) = (f7 < g7)" by simp
    show ?thesis
      unfolding append_less_iff [OF that(1)] append_Cons append_Nil Cons_less_Cons
                append_less_iff [OF that(2)] append_less_iff [OF that(3)]
                append_less_iff [OF that(4)] append_less_iff [OF that(5)]
      by simp
  qed
  have "lower (strftime a) < lower (strftime b) = earlier a b"
    unfolding lower_strftime [OF assms(1)] lower_strftime [OF assms(2)] earlier_def
    by (subst six) (simp_all add: fixed_width_length cmp)
  then show ?thesis using assms(3) by simp
qed

subsection \<open>The sort key of a destination file\<close>

lemma find_last_append:
  "find_last c (xs @ ys) =
     (case find_last c ys of Some j \<Rightarrow> Some (length xs + j) | None \<Rightarrow> find_last c xs)"
  by (induction xs) (auto split: option.splits)

lemma find_last_hit: "\<exists>j. find_last c (c # e) = Some j"
  by (simp split: option.splits)

lemma splitext_root_prefix: "\<exists>r. fst (splitext (A @ CHR ''.'' # e)) = A @ r"
proof -
  obtain j where j: "find_last (CHR ''.'') (CHR ''.'' # e) = Some j"
    using find_last_hit by blast
  have fl: "find_last (CHR ''.'') (A @ CHR ''.'' # e) = Some (length A + j)"
    using j by (simp add: find_last_append)
  have "take (length A + j) (A @ CHR ''.'' # e) = A @ take j (CHR ''.'' # e)" by simp
  then show ?thesis
    using fl by (auto simp: splitext_def rfind_def Let_def)
qed

lemma join_underscore:
  "\<exists>J. \<forall>rest. join dst (base @ CHR ''_'' # rest) = J @ CHR ''_'' # rest"
proof (cases base)
  case Nil
  then show ?thesis by (auto simp: join_def)
next
  case (Cons x xs)
  show ?thesis
  proof (cases "x = CHR ''/''")
    case True
    then have "\<forall>rest. join dst (base @ CHR ''_'' # rest) = base @ CHR ''_'' # rest"
      using Cons by (simp add: join_def)
    then show ?thesis by blast
  next
    case False
    then have "\<forall>rest. join dst (base @ CHR ''_'' # rest)
                 = (if dst = [] \<or> last dst = CHR ''/'' then dst @ base else dst @ ''/'' @ base)
                   @ CHR ''_'' # rest"
      using Cons by (simp add: join_def)
    then show ?thesis by blast
  qed
qed

lemma list_key_later:
  assumes "valid_datetime a" "valid_datetime b" "earlier a b"
  shows "list_key (join dst (get_backup_name a base @ ''.'' @ ext1))
           < list_key (join dst (get_backup_name b base @ ''.'' @ ext2))"
proof -
  obtain J where J: "\<And>rest. join dst (base @ CHR ''_'' # rest) = J @ CHR ''_'' # rest"
    using join_underscore [of dst base] by blast
  have pa: "join dst (get_backup_name a base @ ''.'' @ ext1)
              = (J @ CHR ''_'' # strftime a) @ CHR ''.'' # ext1"
    using J [of "strftime a @ ''.'' @ ext1"] by (simp add: get_backup_name_def)
  have pb: "join dst (get_backup_name b base @ ''.'' @ ext2)
              = (J @ CHR ''_'' # strftime b) @ CHR ''.'' # ext2"
    using J [of "strftime b @ ''.'' @ ext2"] by (simp add: get_backup_name_def)
  obtain ra where ra: "fst (splitext ((J @ CHR ''_'' # strftime a) @ CHR ''.'' # ext1))
                         = (J @ CHR ''_'' # strftime a) @ ra"
    using splitext_root_prefix by blast
  obtain rb where rb: "fst (splitext ((J @ CHR ''_'' # strftime b) @ CHR ''.'' # ext2))
                         = (J @ CHR ''_'' # strftime b) @ rb"
    using splitext_root_prefix by blast
  have ka: "list_key (join dst (get_backup_name a base @ ''.'' @ ext1))
              = lower (J @ ''_'') @ (lower (strftime a) @ lower ra)"
    unfolding list_key_def pa ra by (simp add: lower_def)
  have kb: "list_key (join dst (get_backup_name b base @ ''.'' @ ext2))
              = lower (J @ ''_'') @ (lower (strftime b) @ lower rb)"
    unfolding list_key_def pb rb by (simp add: lower_def)
  have "lower (strftime a) @ lower ra < lower (strftime b) @ lower rb"
    using lower_strftime_less [OF assms]
    by (intro less_append_same_length) (simp_all add: strftime_length assms)
  then show ?thesis
    unfolding ka kb list_less_def by (rule lexord_append_leftI)
qed

lemma sorted_reverse_pair:
  "key x < key y \<Longrightarrow> sorted_reverse key [x, y] = [y, x] \<and> sorted_reverse key [y, x] = [y, x]"
  by (auto simp: sorted_reverse_def)

text \<open>
  C10. The name of a backup is its base, an underscore and the reading of the clock in the
  format \<open>%Y-%m-%dT%H-%M-%S\<close>, 19 characters wide. \<open>backup\<close> stores it as the file
  \<open>dst_name + "." + extension\<close> under the destination directory. For two backups of one
  base taken at different seconds, the sort key of the later file (its path without the
  extension, in lower case) is strictly greater than that of the earlier one, whatever
  their extensions; so the listing of the directory, in whichever order the two files are
  enumerated, has the later backup first. The readings of the clock are valid ones, with a
  year of four digits.
\<close>

theorem later_backup_listed_first:
  assumes "valid_datetime a" and "valid_datetime b" and "earlier a b"
  shows "get_backup_name a base = base @ ''_'' @ strftime a
       \<and> length (strftime a) = 19 \<and> length (strftime b) = 19
       \<and> list_key (join dst (get_backup_name a base @ ''.'' @ ext1))
           < list_key (join dst (get_backup_name b base @ ''.'' @ ext2))
       \<and> local_list (Inr [get_backup_name a base @ ''.'' @ ext1,
                           get_backup_name b base @ ''.'' @ ext2]) dst
           = Inr [join dst (get_backup_name b base @ ''.'' @ ext2),
                  join dst (get_backup_name a base @ ''.'' @ ext1)]
       \<and> local_list (Inr [get_backup_name b base @ ''.'' @ ext2,
                           get_backup_name a base @ ''.'' @ ext1]) dst
           = Inr [join dst (get_backup_name b base @ ''.'' @ ext2),
                  join dst (get_backup_name a base @ ''.'' @ ext1)]"
proof -
  note k = list_key_later [OF assms, of dst base ext1 ext2]
  note p = sorted_reverse_pair [of list_key, OF k]
  show ?thesis
    using k p strftime_length [OF assms(1)] strftime_length [OF assms(2)]
    by (simp add: local_list_def get_backup_name_def)
qed

lemma demo_clock_facts:
  "valid_datetime demo_clock" "valid_datetime demo_clock_later"
  "earlier demo_clock demo_clock_later"
  "strftime demo_clock = ''2024-10-06T09-24-10''"
  "strftime demo_clock_later = ''2024-10-06T09-24-11''"
  by (simp_all add: valid_datetime_def earlier_def demo_clock_def demo_clock_later_def
                    strftime_def zfill_def str_def digits.simps digit_char_def eval_nat_numeral)

text \<open>
  An instance of C10: two backups of \<open>site\<close>, one second apart, the earlier one compressed
  with gzip and the later one with bzip2.
\<close>

theorem later_backup_listed_first_witness:
  "list_key ''/backups/site/site_2024-10-06T09-24-10.tar.gz''
     < list_key ''/backups/site/site_2024-10-06T09-24-11.tar.bz2''
   \<and> local_list (Inr [''site_2024-10-06T09-24-10.tar.gz'', ''site_2024-10-06T09-24-11.tar.bz2''])
         ''/backups/site''
     = Inr [''/backups/site/site_2024-10-06T09-24-11.tar.bz2'',
            ''/backups/site/site_2024-10-06T09-24-10.tar.gz'']"
proof -
  note t = later_backup_listed_first [OF demo_clock_facts(1,2,3), of "''site''" "''/backups/site''"
                                        "''tar.gz''" "''tar.bz2''"]
  have n: "get_backup_name demo_clock ''site'' @ ''.'' @ ''tar.gz''
             = ''site_2024-10-06T09-24-10.tar.gz''"
          "get_backup_name demo_clock_later ''site'' @ ''.'' @ ''tar.bz2''
             = ''site_2024-10-06T09-24-11.tar.bz2''"
    by (simp_all add: get_backup_name_def demo_clock_facts)
  have j: "join ''/backups/site'' ''site_2024-10-06T09-24-10.tar.gz''
             = ''/backups/site/site_2024-10-06T09-24-10.tar.gz''"
          "join ''/backups/site'' ''site_2024-10-06T09-24-11.tar.bz2''
             = ''/backups/site/site_2024-10-06T09-24-11.tar.bz2''"
    by (simp_all add: join_def)
  note t4 = t [THEN conjunct2, THEN conjunct2, THEN conjunct2, THEN conjunct1, unfolded n j]
  note t5 = t [THEN conjunct2, THEN conjunct2, THEN conjunct2, THEN conjunct2, THEN conjunct1,
               unfolded n j]
  show ?thesis using t4 t5 by (rule conjI)
qed

end
